theory Spec2Isabelle
  imports Complex_Main "HOL-Library.AList"
begin

section \<open>Shared data model\<close>

text \<open>
  Python exceptions raised by the modelled code are values of \<open>error\<close>; a function that
  may raise returns \<open>error + 'a\<close>, with \<open>Inl\<close> for the exception.
\<close>

datatype error = KeyError | ValueError | AssertionError | IndexError | AttributeError | TypeError

definition ebind :: "error + 'a \<Rightarrow> ('a \<Rightarrow> error + 'b) \<Rightarrow> error + 'b" where
  "ebind r f = (case r of Inl e \<Rightarrow> Inl e | Inr x \<Rightarrow> f x)"

text \<open>
  Parameter values of the simulation: a number or a (possibly nested) dictionary keyed by
  strings. Python floats are modelled as the reals they denote; rounding is not modelled.
\<close>

datatype pval = Num real | Dict "string \<Rightarrow> pval option"

text \<open>
  An argument that the constructors accept either as a scalar or as a list;
  \<open>sc.promotetoarray\<close> and \<open>sc.promotetolist\<close> turn a scalar into a one-element list.
\<close>

datatype 'a scalar_or_list = Scalar 'a | Array "'a list"

fun promotetoarray :: "'a scalar_or_list \<Rightarrow> 'a list" where
  "promotetoarray (Scalar x) = [x]"
| "promotetoarray (Array xs) = xs"

text \<open>\<open>sc.findinds(arr, val)\<close>: the indices at which an integer array holds \<open>val\<close>.\<close>

definition findinds :: "int list \<Rightarrow> int \<Rightarrow> nat list" where
  "findinds arr val = filter (\<lambda>i. arr ! i = val) [0..<length arr]"

text \<open>
  A float that may be infinite or not a number, for the quantities on which the code
  tests finiteness (the daily test budget and the result arrays it is added to).
\<close>

datatype pyfloat = Fin real | PInf | NInf | NaN

fun pf_add :: "pyfloat \<Rightarrow> pyfloat \<Rightarrow> pyfloat" where
  "pf_add NaN y = NaN"
| "pf_add x NaN = NaN"
| "pf_add (Fin a) (Fin b) = Fin (a + b)"
| "pf_add PInf NInf = NaN"
| "pf_add NInf PInf = NaN"
| "pf_add PInf y = PInf"
| "pf_add x PInf = PInf"
| "pf_add NInf y = NInf"
| "pf_add x NInf = NInf"

text \<open>The fields of a person that the interventions read or write.\<close>

record person =
  symptomatic :: bool
  infectious :: bool
  diagnosed :: bool
  known_contact :: bool
  date_diagnosed :: "int option"
  date_known_contact :: "int option"
  dyn_cont_ppl :: "(nat \<times> int) list"

record results =
  new_tests :: "pyfloat list"
  new_diagnoses :: "pyfloat list"

text \<open>
  The simulation object: the day \<open>sim.t\<close>, the parameters read and written as
  \<open>sim[key]\<close>, the people, the result arrays, and the state \<open>sim_rng\<close> of the random
  source that the sampling collaborators consume.
\<close>

record 'g sim =
  sim_t :: nat
  sim_pars :: "string \<Rightarrow> pval option"
  sim_people :: "person list"
  sim_results :: results
  sim_rng :: 'g

definition sim_get :: "'g sim \<Rightarrow> string \<Rightarrow> error + pval" where
  "sim_get sim key = (case sim_pars sim key of None \<Rightarrow> Inl KeyError | Some v \<Rightarrow> Inr v)"

definition sim_set :: "'g sim \<Rightarrow> string \<Rightarrow> pval \<Rightarrow> 'g sim" where
  "sim_set sim key v = sim\<lparr>sim_pars := (sim_pars sim)(key \<mapsto> v)\<rparr>"

text \<open>\<open>obj[key]\<close> on a parameter value: only a dictionary can be subscripted.\<close>

definition subscript :: "pval \<Rightarrow> string \<Rightarrow> error + pval" where
  "subscript obj key =
     (case obj of
        Num x \<Rightarrow> Inl TypeError
      | Dict m \<Rightarrow> (case m key of None \<Rightarrow> Inl KeyError | Some v \<Rightarrow> Inr v))"

text \<open>\<open>sim[outer][key] = v\<close>.\<close>

definition sim_set_item :: "'g sim \<Rightarrow> string \<Rightarrow> string \<Rightarrow> pval \<Rightarrow> error + 'g sim" where
  "sim_set_item sim outer key v =
     (case sim_get sim outer of
        Inl e \<Rightarrow> Inl e
      | Inr (Num x) \<Rightarrow> Inl TypeError
      | Inr (Dict m) \<Rightarrow> Inr (sim_set sim outer (Dict (m(key \<mapsto> v)))))"

section \<open>interventions.py: sequence\<close>

text \<open>
  \<open>np.cumsum(days)\<close>: the running sums of the durations. Durations are Python integers,
  modelled as unbounded \<open>int\<close>.
\<close>

fun cumsum_from :: "int \<Rightarrow> int list \<Rightarrow> int list" where
  "cumsum_from acc [] = []"
| "cumsum_from acc (d # ds) = (acc + d) # cumsum_from (acc + d) ds"

definition cumsum :: "int list \<Rightarrow> int list" where
  "cumsum ds = cumsum_from 0 ds"

text \<open>
  \<open>np.argmax\<close>: the index of the first occurrence of the largest element; an empty array
  raises \<open>ValueError\<close>. The scan keeps the best element seen so far and replaces it only
  by a strictly larger one. On a boolean mask \<open>False < True\<close>.
\<close>

fun argmax_scan :: "'a::linorder list \<Rightarrow> nat \<Rightarrow> 'a \<Rightarrow> nat \<Rightarrow> nat" where
  "argmax_scan [] i best besti = besti"
| "argmax_scan (x # xs) i best besti =
     (if best < x then argmax_scan xs (Suc i) x i else argmax_scan xs (Suc i) best besti)"

definition argmax :: "'a::linorder list \<Rightarrow> error + nat" where
  "argmax xs = (case xs of [] \<Rightarrow> Inl ValueError | x # rest \<Rightarrow> Inr (argmax_scan rest 1 x 0))"

text \<open>
  The \<open>sequence\<close> object: the durations, the children and the cached cumulative
  boundaries. The children are of an arbitrary type \<open>'c\<close>; their own \<open>apply\<close> is the
  parameter \<open>child_apply\<close> of \<open>sequence_apply\<close>.
\<close>

record 'c sequence =
  seq_days :: "int list"
  seq_interventions :: "'c list"
  seq_cum_days :: "int list"

definition sequence_init :: "int list \<Rightarrow> 'c list \<Rightarrow> error + 'c sequence" where
  "sequence_init days interventions =
     (if length days \<noteq> length interventions then Inl AssertionError
      else Inr \<lparr>seq_days = days, seq_interventions = interventions, seq_cum_days = cumsum days\<rparr>)"

text \<open>
  \<open>idx = np.argmax(self._cum_days > sim.t)\<close>, then \<open>self.interventions[idx].apply(sim)\<close>.
  \<open>sequence_idx\<close> is the first line, \<open>sequence_apply\<close> both.
\<close>

definition sequence_idx :: "'c sequence \<Rightarrow> nat \<Rightarrow> error + nat" where
  "sequence_idx s t = argmax (map (\<lambda>c. c > int t) (seq_cum_days s))"

definition sequence_apply ::
  "('c \<Rightarrow> 's \<Rightarrow> error + 's) \<Rightarrow> 'c sequence \<Rightarrow> nat \<Rightarrow> 's \<Rightarrow> error + 's" where
  "sequence_apply child_apply s t sim =
     (case sequence_idx s t of
        Inl e \<Rightarrow> Inl e
      | Inr idx \<Rightarrow>
          if idx < length (seq_interventions s) then child_apply (seq_interventions s ! idx) sim
          else Inl IndexError)"

section \<open>interventions.py: change beta\<close>

text \<open>
  \<open>orig_betas\<close> is \<open>None\<close> until the first \<open>apply\<close>; afterwards it is a dictionary, kept
  as an association list in insertion order, from \<open>'overall'\<close> or a layer name to the
  value read on that first day.
\<close>

record change_beta =
  cb_days :: "int list"
  cb_changes :: "real list"
  cb_layers :: "string option list"
  cb_orig_betas :: "(string \<times> pval) list option"

definition change_beta_init ::
  "int scalar_or_list \<Rightarrow> real scalar_or_list \<Rightarrow> string option scalar_or_list
     \<Rightarrow> error + change_beta" where
  "change_beta_init days changes layers =
     (let days' = promotetoarray days;
          changes' = promotetoarray changes;
          layers' = promotetoarray layers
      in if length days' \<noteq> length changes' then Inl ValueError
         else Inr \<lparr>cb_days = days', cb_changes = changes', cb_layers = layers',
                   cb_orig_betas = None\<rparr>)"

text \<open>The loop of the first \<open>apply\<close> that fills \<open>orig_betas\<close>, one layer at a time.\<close>

fun store_betas ::
  "'g sim \<Rightarrow> string option list \<Rightarrow> (string \<times> pval) list \<Rightarrow> error + (string \<times> pval) list" where
  "store_betas sim [] ob = Inr ob"
| "store_betas sim (None # layers) ob =
     ebind (sim_get sim ''beta'')
       (\<lambda>v. store_betas sim layers (AList.update ''overall'' v ob))"
| "store_betas sim (Some layer # layers) ob =
     ebind (sim_get sim ''beta_layers'')
       (\<lambda>bl. ebind (subscript bl layer)
          (\<lambda>v. store_betas sim layers (AList.update layer v ob)))"

text \<open>
  \<open>for ind in inds: new_beta = new_beta * self.changes[ind]\<close>. Only a number can be
  multiplied by a float.
\<close>

fun scale_beta :: "real list \<Rightarrow> nat list \<Rightarrow> pval \<Rightarrow> error + pval" where
  "scale_beta changes [] new_beta = Inr new_beta"
| "scale_beta changes (ind # inds) new_beta =
     (if ind < length changes then
        (case new_beta of
           Num b \<Rightarrow> scale_beta changes inds (Num (b * changes ! ind))
         | Dict m \<Rightarrow> Inl TypeError)
      else Inl IndexError)"

text \<open>\<open>for layer, new_beta in self.orig_betas.items(): ...\<close>\<close>

fun apply_changes ::
  "real list \<Rightarrow> nat list \<Rightarrow> (string \<times> pval) list \<Rightarrow> 'g sim \<Rightarrow> error + 'g sim" where
  "apply_changes changes inds [] sim = Inr sim"
| "apply_changes changes inds ((layer, new_beta) # rest) sim =
     ebind (scale_beta changes inds new_beta)
       (\<lambda>nb. if layer = ''overall'' then apply_changes changes inds rest (sim_set sim ''beta'' nb)
             else ebind (sim_set_item sim ''beta_layers'' layer nb)
                    (apply_changes changes inds rest))"

definition change_beta_apply :: "change_beta \<Rightarrow> 'g sim \<Rightarrow> error + (change_beta \<times> 'g sim)" where
  "change_beta_apply cb sim =
     ebind (case cb_orig_betas cb of
              None \<Rightarrow> store_betas sim (cb_layers cb) []
            | Some ob \<Rightarrow> Inr ob)
       (\<lambda>ob. let cb' = cb\<lparr>cb_orig_betas := Some ob\<rparr>;
                  inds = findinds (cb_days cb) (int (sim_t sim))
              in if inds \<noteq> [] then
                   ebind (apply_changes (cb_changes cb) inds ob sim) (\<lambda>sim'. Inr (cb', sim'))
                 else Inr (cb', sim))"

text \<open>
  The live value that an entry of \<open>orig_betas\<close> stands for: \<open>sim['beta']\<close> for the key
  \<open>'overall'\<close> and \<open>sim['beta_layers'][layer]\<close> for any other key, as in the two branches
  that read and write it.
\<close>

definition live_beta :: "'g sim \<Rightarrow> string \<Rightarrow> error + pval" where
  "live_beta sim layer =
     (if layer = ''overall'' then sim_get sim ''beta''
      else ebind (sim_get sim ''beta_layers'') (\<lambda>bl. subscript bl layer))"

section \<open>interventions.py: test num\<close>

record test_num =
  tn_daily_tests :: "pyfloat list"
  tn_sympt_test :: real
  tn_trace_test :: real
  tn_sensitivity :: real
  tn_test_delay :: int

text \<open>Truth value of a float (\<open>nan\<close> and the infinities are true), and \<open>pl.isfinite\<close>.\<close>

fun pf_truthy :: "pyfloat \<Rightarrow> bool" where
  "pf_truthy (Fin x) = (x \<noteq> 0)"
| "pf_truthy y = True"

fun pf_isfinite :: "pyfloat \<Rightarrow> bool" where
  "pf_isfinite (Fin x) = True"
| "pf_isfinite y = False"

text \<open>\<open>arr[t] += x\<close> on a result array; an index past the end raises.\<close>

definition results_add :: "pyfloat list \<Rightarrow> nat \<Rightarrow> pyfloat \<Rightarrow> error + pyfloat list" where
  "results_add arr t x =
     (if t < length arr then Inr (arr[t := pf_add (arr ! t) x]) else Inl IndexError)"

text \<open>
  The entry of \<open>test_probs\<close> for one person: it starts at 1 (\<open>np.ones\<close>) and goes through
  the three \<open>if\<close> statements in their order.
\<close>

definition test_prob :: "test_num \<Rightarrow> person \<Rightarrow> real" where
  "test_prob tn p =
     (let pr = 1;
          pr = (if symptomatic p then pr * tn_sympt_test tn else pr);
          pr = (if known_contact p then pr * tn_trace_test tn else pr);
          pr = (if diagnosed p then 0 else pr)
      in pr)"

text \<open>
  The loop over \<open>enumerate(sim.people)\<close>. \<open>person.check_diagnosed(t)\<close> belongs to the
  person class, which is not among the sources: it is the parameter \<open>check_diagnosed\<close>,
  giving the person after the call and the returned count. The flags are read after it.
  The result is the people, \<open>test_probs\<close> and \<open>new_diagnoses\<close>.
\<close>

fun scan_people ::
  "(nat \<Rightarrow> person \<Rightarrow> person \<times> nat) \<Rightarrow> test_num \<Rightarrow> nat \<Rightarrow> person list
     \<Rightarrow> person list \<times> real list \<times> nat" where
  "scan_people check_diagnosed tn t [] = ([], [], 0)"
| "scan_people check_diagnosed tn t (p # ps) =
     (let (p', k) = check_diagnosed t p;
          (ps', probs, new_diag) = scan_people check_diagnosed tn t ps
      in (p' # ps', test_prob tn p' # probs, k + new_diag))"

text \<open>
  Modelled from the spec: \<open>cv.choose_weighted\<close> (the WeightedSampler; utils.py is not among
  the sources). It is a parameter taking the propensities, the requested count and the
  state of the random source, and returning the chosen indices and the new state. Its
  contract: up to n distinct indices, each of an agent with positive propensity; all the
  eligible ones when n is at least their number; none when n is not positive or not finite.
\<close>

definition weighted_sampler :: "(real list \<Rightarrow> pyfloat \<Rightarrow> 'g \<Rightarrow> nat list \<times> 'g) \<Rightarrow> bool" where
  "weighted_sampler choose_weighted =
     (\<forall>probs n g.
        let inds = fst (choose_weighted probs n g);
            eligible = {i. i < length probs \<and> 0 < probs ! i}
        in distinct inds \<and> set inds \<subseteq> eligible
           \<and> (case n of
                 Fin x \<Rightarrow> real (length inds) \<le> max 0 x
                         \<and> (real (card eligible) \<le> x \<longrightarrow> set inds = eligible)
               | _ \<Rightarrow> inds = []))"

text \<open>
  The loop over \<open>test_inds\<close>: \<open>sim.people[test_ind].test(t, sensitivity, test_delay)\<close>.
  \<open>person.test\<close> is the parameter \<open>person_test\<close>; it may draw from the random source.
\<close>

fun test_people ::
  "(nat \<Rightarrow> real \<Rightarrow> int \<Rightarrow> person \<Rightarrow> 'g \<Rightarrow> person \<times> 'g) \<Rightarrow> test_num \<Rightarrow> nat \<Rightarrow> nat list
     \<Rightarrow> person list \<Rightarrow> 'g \<Rightarrow> error + (person list \<times> 'g)" where
  "test_people person_test tn t [] people g = Inr (people, g)"
| "test_people person_test tn t (test_ind # test_inds) people g =
     (if test_ind < length people then
        (let (p', g') = person_test t (tn_sensitivity tn) (tn_test_delay tn) (people ! test_ind) g
         in test_people person_test tn t test_inds (people[test_ind := p']) g')
      else Inl IndexError)"

text \<open>
  Lines 252 to 268 of \<open>apply\<close>: the propensities and the draw of today's indices. The
  result is the people after \<open>check_diagnosed\<close>, the propensities, the number of new
  diagnoses, the selected indices and the new state of the random source.
\<close>

definition select_tests ::
  "(nat \<Rightarrow> person \<Rightarrow> person \<times> nat) \<Rightarrow> (real list \<Rightarrow> pyfloat \<Rightarrow> 'g \<Rightarrow> nat list \<times> 'g)
     \<Rightarrow> test_num \<Rightarrow> nat \<Rightarrow> pyfloat \<Rightarrow> person list \<Rightarrow> 'g
     \<Rightarrow> person list \<times> real list \<times> nat \<times> nat list \<times> 'g" where
  "select_tests check_diagnosed choose_weighted tn t n_tests people g =
     (let (people1, test_probs, new_diag) = scan_people check_diagnosed tn t people;
          (test_inds, g1) = choose_weighted test_probs n_tests g
      in (people1, test_probs, new_diag, test_inds, g1))"

definition test_num_apply ::
  "(nat \<Rightarrow> person \<Rightarrow> person \<times> nat) \<Rightarrow> (real list \<Rightarrow> pyfloat \<Rightarrow> 'g \<Rightarrow> nat list \<times> 'g)
     \<Rightarrow> (nat \<Rightarrow> real \<Rightarrow> int \<Rightarrow> person \<Rightarrow> 'g \<Rightarrow> person \<times> 'g)
     \<Rightarrow> test_num \<Rightarrow> 'g sim \<Rightarrow> error + 'g sim" where
  "test_num_apply check_diagnosed choose_weighted person_test tn sim =
     (let t = sim_t sim in
      if t < length (tn_daily_tests tn) then
        (let n_tests = tn_daily_tests tn ! t in
         ebind (results_add (new_tests (sim_results sim)) t n_tests)
           (\<lambda>nt.
              let sim1 = sim\<lparr>sim_results := (sim_results sim)\<lparr>new_tests := nt\<rparr>\<rparr> in
              if \<not> (pf_truthy n_tests \<and> pf_isfinite n_tests) then Inr sim1
              else
                (let (people1, test_probs, new_diag, test_inds, g1) =
                       select_tests check_diagnosed choose_weighted tn t n_tests
                         (sim_people sim1) (sim_rng sim1)
                 in ebind (results_add (new_diagnoses (sim_results sim1)) t
                             (Fin (real new_diag)))
                      (\<lambda>nd. ebind (test_people person_test tn t test_inds people1 g1)
                         (\<lambda>(people2, g2).
                            Inr (sim1\<lparr>sim_people := people2,
                                       sim_results := (sim_results sim1)\<lparr>new_diagnoses := nd\<rparr>,
                                       sim_rng := g2\<rparr>))))))
      else Inr sim)"

text \<open>
  Modelled from the spec: the simulation loop (sim.py is not among the sources), which
  "drives the day index" and calls \<open>apply\<close> once per simulated day. \<open>run_test_num\<close> sets
  \<open>sim.t\<close> to each day of the list in turn and applies the intervention; the rest of the
  day loop is not modelled.
\<close>

fun run_test_num ::
  "(nat \<Rightarrow> person \<Rightarrow> person \<times> nat) \<Rightarrow> (real list \<Rightarrow> pyfloat \<Rightarrow> 'g \<Rightarrow> nat list \<times> 'g)
     \<Rightarrow> (nat \<Rightarrow> real \<Rightarrow> int \<Rightarrow> person \<Rightarrow> 'g \<Rightarrow> person \<times> 'g)
     \<Rightarrow> test_num \<Rightarrow> nat list \<Rightarrow> 'g sim \<Rightarrow> error + 'g sim" where
  "run_test_num check_diagnosed choose_weighted person_test tn [] sim = Inr sim"
| "run_test_num check_diagnosed choose_weighted person_test tn (day # days) sim =
     ebind (test_num_apply check_diagnosed choose_weighted person_test tn (sim\<lparr>sim_t := day\<rparr>))
       (run_test_num check_diagnosed choose_weighted person_test tn days)"

section \<open>interventions.py: contact tracing\<close>

record contact_tracing =
  ct_trace_probs :: "string \<Rightarrow> real option"
  ct_trace_time :: "string \<Rightarrow> int option"
  ct_start_day :: int
  ct_contact_reduction :: "real option"

text \<open>
  \<open>d.update(e)\<close> on dictionaries kept as association lists in insertion order: every item
  of \<open>e\<close> is stored into \<open>d\<close>, replacing the value of a key that is already there.
\<close>

definition dict_update :: "('k \<times> 'v) list \<Rightarrow> ('k \<times> 'v) list \<Rightarrow> ('k \<times> 'v) list" where
  "dict_update d e = fold (\<lambda>(k, v). AList.update k v) e d"

text \<open>The \<open>if\<close>/\<open>else\<close> that sets \<open>target_person.date_known_contact\<close> on day \<open>t\<close>.\<close>

definition notify :: "nat \<Rightarrow> int \<Rightarrow> person \<Rightarrow> person" where
  "notify t contact_time target_person =
     (case date_known_contact target_person of
        None \<Rightarrow> target_person\<lparr>date_known_contact := Some (int t + contact_time)\<rparr>
      | Some d \<Rightarrow> target_person\<lparr>date_known_contact := Some (min d (int t + contact_time))\<rparr>)"

text \<open>
  \<open>for contact_ind, contact_time in contactable_ppl.items(): ...\<close>; \<open>sim.people[contact_ind]\<close>
  raises for an index past the end.
\<close>

fun notify_contacts :: "nat \<Rightarrow> (nat \<times> int) list \<Rightarrow> person list \<Rightarrow> error + person list" where
  "notify_contacts t [] people = Inr people"
| "notify_contacts t ((contact_ind, contact_time) # rest) people =
     (if contact_ind < length people then
        notify_contacts t rest
          (people[contact_ind := notify t contact_time (people ! contact_ind)])
      else Inl IndexError)"

text \<open>
  The body of the loop over \<open>sim.people\<close> for the person at index \<open>i\<close>.

  Modelled from the spec: \<open>person.trace_dynamic_contacts(probs, times)\<close> and
  \<open>person.trace_static_contacts(probs, times)\<close> belong to the person class, which is not
  among the sources. The first "mutates the agent's own accumulated dynamic-contact
  record": the parameter \<open>trace_dynamic_contacts\<close> gives the new \<open>dyn_cont_ppl\<close>. The second
  returns a "mapping[contact_uid \<rightarrow> delay]": the parameter \<open>trace_static_contacts\<close> gives
  it. Both may draw from the random source.
\<close>

definition trace_person ::
  "((string \<Rightarrow> real option) \<Rightarrow> (string \<Rightarrow> int option) \<Rightarrow> person \<Rightarrow> 'g \<Rightarrow> (nat \<times> int) list \<times> 'g)
     \<Rightarrow> ((string \<Rightarrow> real option) \<Rightarrow> (string \<Rightarrow> int option) \<Rightarrow> person \<Rightarrow> 'g \<Rightarrow> (nat \<times> int) list \<times> 'g)
     \<Rightarrow> contact_tracing \<Rightarrow> nat \<Rightarrow> nat \<Rightarrow> person list \<Rightarrow> 'g \<Rightarrow> error + (person list \<times> 'g)" where
  "trace_person trace_dynamic_contacts trace_static_contacts ct t i people g =
     (let person = people ! i in
      if \<not> infectious person then Inr (people, g)
      else
        (let (dyn, g1) = trace_dynamic_contacts (ct_trace_probs ct) (ct_trace_time ct) person g;
             person1 = person\<lparr>dyn_cont_ppl := dyn\<rparr>;
             people1 = people[i := person1]
         in if date_diagnosed person1 \<noteq> None \<and> date_diagnosed person1 = Some (int t - 1) then
              (let (static, g2) =
                     trace_static_contacts (ct_trace_probs ct) (ct_trace_time ct) person1 g1;
                   contactable_ppl = dict_update static (dyn_cont_ppl person1)
               in ebind (notify_contacts t contactable_ppl people1) (\<lambda>people2. Inr (people2, g2)))
            else Inr (people1, g1)))"

text \<open>\<open>for person in sim.people: ...\<close>, over the indices of the people in order.\<close>

fun trace_loop ::
  "((string \<Rightarrow> real option) \<Rightarrow> (string \<Rightarrow> int option) \<Rightarrow> person \<Rightarrow> 'g \<Rightarrow> (nat \<times> int) list \<times> 'g)
     \<Rightarrow> ((string \<Rightarrow> real option) \<Rightarrow> (string \<Rightarrow> int option) \<Rightarrow> person \<Rightarrow> 'g \<Rightarrow> (nat \<times> int) list \<times> 'g)
     \<Rightarrow> contact_tracing \<Rightarrow> nat \<Rightarrow> nat list \<Rightarrow> person list \<Rightarrow> 'g \<Rightarrow> error + (person list \<times> 'g)" where
  "trace_loop trace_dynamic_contacts trace_static_contacts ct t [] people g = Inr (people, g)"
| "trace_loop trace_dynamic_contacts trace_static_contacts ct t (i # rest) people g =
     ebind (trace_person trace_dynamic_contacts trace_static_contacts ct t i people g)
       (\<lambda>(people', g'). trace_loop trace_dynamic_contacts trace_static_contacts ct t rest people' g')"

definition contact_tracing_apply ::
  "((string \<Rightarrow> real option) \<Rightarrow> (string \<Rightarrow> int option) \<Rightarrow> person \<Rightarrow> 'g \<Rightarrow> (nat \<times> int) list \<times> 'g)
     \<Rightarrow> ((string \<Rightarrow> real option) \<Rightarrow> (string \<Rightarrow> int option) \<Rightarrow> person \<Rightarrow> 'g \<Rightarrow> (nat \<times> int) list \<times> 'g)
     \<Rightarrow> contact_tracing \<Rightarrow> 'g sim \<Rightarrow> error + 'g sim" where
  "contact_tracing_apply trace_dynamic_contacts trace_static_contacts ct sim =
     (let t = sim_t sim in
      if int t < ct_start_day ct then Inr sim
      else ebind (trace_loop trace_dynamic_contacts trace_static_contacts ct t
                    [0..<length (sim_people sim)] (sim_people sim) (sim_rng sim))
             (\<lambda>(people, g). Inr (sim\<lparr>sim_people := people, sim_rng := g\<rparr>)))"

section \<open>interventions.py: dynamic pars\<close>

text \<open>
  The constructor's argument maps each parameter key to a dictionary with the subkeys
  \<open>'days'\<close> and \<open>'vals'\<close>, "either a scalar or list"; a missing subkey is \<open>None\<close>. The outer
  dictionary is an association list in insertion order.
\<close>

record sched_arg =
  arg_days :: "int scalar_or_list option"
  arg_vals :: "pval scalar_or_list option"

text \<open>
  \<open>sc.isiterable\<close>: a number is not iterable, a dictionary is (as a list is).
\<close>

fun isiterable :: "pval \<Rightarrow> bool" where
  "isiterable (Num x) = False"
| "isiterable (Dict m) = True"

text \<open>
  What is stored under \<open>'vals'\<close> once the constructor has run: a subkey is promoted to an
  array only \<open>if not sc.isiterable(...)\<close>, so a list stays as it is, a number becomes a
  one-element array, and a dictionary given as the scalar value stays a dictionary.
  \<open>len\<close> of a dictionary is the number of its keys (finitely many).
\<close>

datatype vals = ValArray "pval list" | ValDict "string \<Rightarrow> pval option"

fun promote_vals :: "pval scalar_or_list \<Rightarrow> vals" where
  "promote_vals (Scalar x) = (if \<not> isiterable x then ValArray [x]
                             else (case x of Dict m \<Rightarrow> ValDict m | Num y \<Rightarrow> ValArray [x]))"
| "promote_vals (Array xs) = ValArray xs"

fun vals_len :: "vals \<Rightarrow> nat" where
  "vals_len (ValArray xs) = length xs"
| "vals_len (ValDict m) = card (dom m)"

record sched =
  dp_days :: "int list"
  dp_vals :: vals

text \<open>
  The body of the loop over \<open>pars.keys()\<close>: both subkeys must be there (\<open>KeyError\<close>), a
  subkey that is not iterable is promoted to an array (a day is an integer, so a scalar
  day always is), and the two lengths must agree (\<open>ValueError\<close>). Nothing else is checked.
\<close>

definition init_entry :: "sched_arg \<Rightarrow> error + sched" where
  "init_entry a =
     (case arg_days a of
        None \<Rightarrow> Inl KeyError
      | Some d \<Rightarrow>
          (case arg_vals a of
             None \<Rightarrow> Inl KeyError
           | Some v \<Rightarrow>
               (let days = promotetoarray d; vals = promote_vals v
                in if length days \<noteq> vals_len vals then Inl ValueError
                   else Inr \<lparr>dp_days = days, dp_vals = vals\<rparr>)))"

fun dynamic_pars_init :: "(string \<times> sched_arg) list \<Rightarrow> error + (string \<times> sched) list" where
  "dynamic_pars_init [] = Inr []"
| "dynamic_pars_init ((parkey, a) # rest) =
     ebind (init_entry a)
       (\<lambda>parval. ebind (dynamic_pars_init rest) (\<lambda>pars. Inr ((parkey, parval) # pars)))"

text \<open>
  \<open>parval['vals'][i]\<close> for an integer \<open>i\<close>: an array is indexed (\<open>IndexError\<close> past its
  end); a dictionary, whose keys are strings, has no such key (\<open>KeyError\<close>).
\<close>

fun vals_item :: "vals \<Rightarrow> nat \<Rightarrow> error + pval" where
  "vals_item (ValArray xs) i = (if i < length xs then Inr (xs ! i) else Inl IndexError)"
| "vals_item (ValDict m) i = Inl KeyError"

text \<open>
  The body of the loop of \<open>apply\<close> for one parameter. With one match the value is stored:
  a dictionary is merged into \<open>sim[parkey]\<close> by \<open>update\<close> (which only a dictionary has),
  anything else replaces it. With more than one match \<open>ValueError\<close> is raised.

  Modelled from the spec: \<open>sim[parkey] = val\<close> goes through the simulation class (sim.py
  is not among the sources); "scalar targets overwrite".
\<close>

definition apply_entry :: "nat \<Rightarrow> string \<Rightarrow> sched \<Rightarrow> 'g sim \<Rightarrow> error + 'g sim" where
  "apply_entry t parkey parval sim =
     (let inds = findinds (dp_days parval) (int t) in
      if length inds \<noteq> 0 then
        (if length inds > 1 then Inl ValueError
         else
           (case vals_item (dp_vals parval) (hd inds) of
              Inl e \<Rightarrow> Inl e
            | Inr (Dict val) \<Rightarrow>
                (case sim_get sim parkey of
                   Inl e \<Rightarrow> Inl e
                 | Inr (Num x) \<Rightarrow> Inl AttributeError
                 | Inr (Dict m) \<Rightarrow> Inr (sim_set sim parkey (Dict (m ++ val))))
            | Inr (Num val) \<Rightarrow> Inr (sim_set sim parkey (Num val))))
      else Inr sim)"

fun dynamic_pars_loop :: "nat \<Rightarrow> (string \<times> sched) list \<Rightarrow> 'g sim \<Rightarrow> error + 'g sim" where
  "dynamic_pars_loop t [] sim = Inr sim"
| "dynamic_pars_loop t ((parkey, parval) # rest) sim =
     ebind (apply_entry t parkey parval sim) (dynamic_pars_loop t rest)"

definition dynamic_pars_apply :: "(string \<times> sched) list \<Rightarrow> 'g sim \<Rightarrow> error + 'g sim" where
  "dynamic_pars_apply pars sim = dynamic_pars_loop (sim_t sim) pars sim"

section \<open>population.py: make microstructured contacts\<close>

text \<open>
  \<open>contacts_dict\<close> is a \<open>defaultdict(set)\<close>: an association list in insertion order from
  an agent's index to the set of its contacts. \<open>dd_get\<close> reads an entry, a missing key
  standing for the empty set; \<open>dd_add i j\<close> is \<open>contacts_dict[i].add(j)\<close>, which creates
  the entry when it is missing.
\<close>

definition dd_get :: "(nat \<times> nat set) list \<Rightarrow> nat \<Rightarrow> nat set" where
  "dd_get contacts_dict k = (case map_of contacts_dict k of None \<Rightarrow> {} | Some s \<Rightarrow> s)"

definition dd_add :: "nat \<Rightarrow> nat \<Rightarrow> (nat \<times> nat set) list \<Rightarrow> (nat \<times> nat set) list" where
  "dd_add i j contacts_dict = AList.update i (insert j (dd_get contacts_dict i)) contacts_dict"

text \<open>
  The two nested loops over \<open>cluster_indices\<close>: a pair with \<open>j <= i\<close> is passed over, any
  other pair is added in both directions.
\<close>

definition add_cluster :: "nat list \<Rightarrow> (nat \<times> nat set) list \<Rightarrow> (nat \<times> nat set) list" where
  "add_cluster cluster_indices contacts_dict =
     fold (\<lambda>i d. fold (\<lambda>j d. if j \<le> i then d else dd_add j i (dd_add i j d)) cluster_indices d)
       cluster_indices contacts_dict"

text \<open>
  The loop \<open>while n_remaining > 0\<close> for one layer.

  Modelled from the spec: \<open>cvu.pt(cluster_size)\<close> (utils.py is not among the sources), by
  which "cluster sizes are drawn from a Poisson distribution". The random source is the
  list of the sizes it will draw, in order, whatever the mean; each turn of the loop takes
  the next one. A draw of 0 leaves \<open>n_remaining\<close> as it is and the loop goes on; when the
  list is used up with agents still remaining, the result is \<open>None\<close>. Otherwise the result
  is the dictionary and the draws that are left.
\<close>

fun make_clusters ::
  "nat \<Rightarrow> nat \<Rightarrow> nat list \<Rightarrow> (nat \<times> nat set) list \<Rightarrow> ((nat \<times> nat set) list \<times> nat list) option" where
  "make_clusters pop_size n_remaining [] contacts_dict =
     (if n_remaining > 0 then None else Some (contacts_dict, []))"
| "make_clusters pop_size n_remaining (draw # draws) contacts_dict =
     (if n_remaining > 0 then
        (let this_cluster = (if draw > n_remaining then n_remaining else draw);
             cluster_indices = map (\<lambda>k. (pop_size - n_remaining) + k) [0..<this_cluster]
         in make_clusters pop_size (n_remaining - this_cluster) draws
              (add_cluster cluster_indices contacts_dict))
      else Some (contacts_dict, draw # draws))"

text \<open>
  \<open>for key in contacts_dict.keys(): contacts_list[key][layer_name] = np.array(list(...))\<close>.
  Each person's entry of \<open>contacts_list\<close> is a dictionary from layer names to arrays of
  indices. The order in which \<open>list\<close> enumerates a set is not specified; the model takes
  the increasing one. The keys are indices of agents, all below the population size
  (lemma \<open>make_clusters_inv\<close>), so the assignment never falls outside the list.
\<close>

definition fill_layer ::
  "string \<Rightarrow> (nat \<times> nat set) list \<Rightarrow> (string \<Rightarrow> nat list option) list
     \<Rightarrow> (string \<Rightarrow> nat list option) list" where
  "fill_layer layer_name contacts_dict contacts_list =
     fold (\<lambda>(key, s) cl. cl[key := (cl ! key)(layer_name \<mapsto> sorted_list_of_set s)])
       contacts_dict contacts_list"

text \<open>\<open>for layer_name, cluster_size in contacts.items(): ...\<close>\<close>

fun layers_loop ::
  "nat \<Rightarrow> (string \<times> real) list \<Rightarrow> nat list \<Rightarrow> (string \<Rightarrow> nat list option) list
     \<Rightarrow> (string \<Rightarrow> nat list option) list option" where
  "layers_loop pop_size [] draws contacts_list = Some contacts_list"
| "layers_loop pop_size ((layer_name, cluster_size) # rest) draws contacts_list =
     (case make_clusters pop_size pop_size draws [] of
        None \<Rightarrow> None
      | Some (contacts_dict, draws') \<Rightarrow>
          layers_loop pop_size rest draws' (fill_layer layer_name contacts_dict contacts_list))"

text \<open>
  The whole function: the community layer \<open>'c'\<close> is dropped, every person starts with an
  empty list for every remaining layer, and the layers are filled in turn. \<open>contacts\<close> is a
  dictionary, given as an association list.
\<close>

definition make_microstructured_contacts ::
  "nat \<Rightarrow> (string \<times> real) list \<Rightarrow> nat list
     \<Rightarrow> ((string \<Rightarrow> nat list option) list \<times> string list) option" where
  "make_microstructured_contacts pop_size contacts draws =
     (let contacts = filter (\<lambda>(k, v). k \<noteq> ''c'') contacts;
          contact_keys = map fst contacts;
          contacts_list = replicate pop_size (map_of (map (\<lambda>c. (c, [])) contact_keys))
      in case layers_loop pop_size contacts draws contacts_list of
           None \<Rightarrow> None
         | Some contacts_list \<Rightarrow> Some (contacts_list, contact_keys))"

text \<open>\<open>contacts_list[i][layer]\<close> as a list; a layer that is not a key reads as empty.\<close>

definition neighbors :: "(string \<Rightarrow> nat list option) list \<Rightarrow> nat \<Rightarrow> string \<Rightarrow> nat list" where
  "neighbors contacts_list i layer =
     (case (contacts_list ! i) layer of None \<Rightarrow> [] | Some ns \<Rightarrow> ns)"

text \<open>
  The invariant of \<open>contacts_dict\<close> while clusters are added, for a population of \<open>n\<close>
  agents: keys occur once and are agents, every contact set is finite, holds agents other
  than its owner, and each contact has the owner among its own contacts.
\<close>

definition clique_inv :: "nat \<Rightarrow> (nat \<times> nat set) list \<Rightarrow> bool" where
  "clique_inv n d =
     (distinct (map fst d)
      \<and> (\<forall>k s. map_of d k = Some s \<longrightarrow>
            finite s \<and> k < n \<and> k \<notin> s
            \<and> (\<forall>j \<in> s. j < n \<and> (\<exists>s'. map_of d j = Some s' \<and> k \<in> s'))))"

text \<open>
  What holds of a finished layer in \<open>contacts_list\<close>, for a population of \<open>n\<close> agents:
  every agent has an entry for the layer, without repetitions and without the agent
  itself, and each of its contacts is an agent that has it as a contact in turn.
\<close>

definition layer_ok :: "nat \<Rightarrow> (string \<Rightarrow> nat list option) list \<Rightarrow> string \<Rightarrow> bool" where
  "layer_ok n contacts_list layer =
     (\<forall>i < n. \<exists>ns. (contacts_list ! i) layer = Some ns \<and> distinct ns \<and> i \<notin> set ns
        \<and> (\<forall>j \<in> set ns. j < n \<and> (\<exists>ms. (contacts_list ! j) layer = Some ms \<and> i \<in> set ms)))"

section \<open>interventions.py: the notifications of one contact tracing apply\<close>

text \<open>
  The date an agent ends with after being notified on day \<open>t\<close> with the given delays in
  turn, starting from its existing \<open>date_known_contact\<close>: the first notification of an
  agent without a date sets \<open>t + d\<close>, every other one keeps the minimum.
\<close>

definition earliest :: "nat \<Rightarrow> int option \<Rightarrow> int list \<Rightarrow> int option" where
  "earliest t existing delays =
     fold (\<lambda>d acc. Some (case acc of None \<Rightarrow> int t + d | Some e \<Rightarrow> min e (int t + d)))
       delays existing"

text \<open>
  Whom one person contacts at its turn in the loop, and with which delay: nobody unless
  the person is infectious and, after its dynamic contacts have been traced, was diagnosed
  on day \<open>t - 1\<close>; otherwise its static contacts overlaid by its accumulated dynamic
  contacts (for an agent in both, the delay of the dynamic contact).
\<close>

definition person_notice ::
  "((string \<Rightarrow> real option) \<Rightarrow> (string \<Rightarrow> int option) \<Rightarrow> person \<Rightarrow> 'g \<Rightarrow> (nat \<times> int) list \<times> 'g)
     \<Rightarrow> ((string \<Rightarrow> real option) \<Rightarrow> (string \<Rightarrow> int option) \<Rightarrow> person \<Rightarrow> 'g \<Rightarrow> (nat \<times> int) list \<times> 'g)
     \<Rightarrow> contact_tracing \<Rightarrow> nat \<Rightarrow> person \<Rightarrow> 'g \<Rightarrow> (nat \<Rightarrow> int option)" where
  "person_notice trace_dynamic_contacts trace_static_contacts ct t person g =
     (if infectious person then
        (let (dyn, g1) = trace_dynamic_contacts (ct_trace_probs ct) (ct_trace_time ct) person g;
             person1 = person\<lparr>dyn_cont_ppl := dyn\<rparr>
         in if date_diagnosed person1 = Some (int t - 1) then
              map_of (fst (trace_static_contacts (ct_trace_probs ct) (ct_trace_time ct) person1 g1))
                ++ map_of dyn
            else Map.empty)
      else Map.empty)"

text \<open>
  The contacts of the persons of a loop, in the order of the loop, each person taken in
  the state (people and random source) in which the loop reaches it.
\<close>

fun trace_notices ::
  "((string \<Rightarrow> real option) \<Rightarrow> (string \<Rightarrow> int option) \<Rightarrow> person \<Rightarrow> 'g \<Rightarrow> (nat \<times> int) list \<times> 'g)
     \<Rightarrow> ((string \<Rightarrow> real option) \<Rightarrow> (string \<Rightarrow> int option) \<Rightarrow> person \<Rightarrow> 'g \<Rightarrow> (nat \<times> int) list \<times> 'g)
     \<Rightarrow> contact_tracing \<Rightarrow> nat \<Rightarrow> nat list \<Rightarrow> person list \<Rightarrow> 'g \<Rightarrow> (nat \<Rightarrow> int option) list" where
  "trace_notices trace_dynamic_contacts trace_static_contacts ct t [] people g = []"
| "trace_notices trace_dynamic_contacts trace_static_contacts ct t (i # rest) people g =
     person_notice trace_dynamic_contacts trace_static_contacts ct t (people ! i) g
       # (case trace_person trace_dynamic_contacts trace_static_contacts ct t i people g of
            Inl e \<Rightarrow> []
          | Inr (people', g') \<Rightarrow>
              trace_notices trace_dynamic_contacts trace_static_contacts ct t rest people' g')"

section \<open>Properties of sequence\<close>

lemma length_cumsum_from: "length (cumsum_from acc ds) = length ds"
  by (induction ds arbitrary: acc) auto

lemma nth_cumsum_from:
  "k < length ds \<Longrightarrow> cumsum_from acc ds ! k = acc + sum_list (take (Suc k) ds)"
proof (induction ds arbitrary: acc k)
  case Nil
  then show ?case by simp
next
  case (Cons d ds)
  show ?case
  proof (cases k)
    case 0
    then show ?thesis by simp
  next
    case (Suc m)
    with Cons.prems have "m < length ds" by simp
    from Cons.IH [OF this, of "acc + d"] Suc show ?thesis by simp
  qed
qed

lemma argmax_scan_True: "argmax_scan bs i True besti = besti"
  by (induction bs arbitrary: i) auto

lemma argmax_scan_all_False:
  "\<forall>b \<in> set bs. \<not> b \<Longrightarrow> argmax_scan bs i False besti = besti"
  by (induction bs arbitrary: i) auto

lemma argmax_scan_first_True:
  "k < length bs \<Longrightarrow> bs ! k \<Longrightarrow> \<forall>j<k. \<not> bs ! j \<Longrightarrow> argmax_scan bs i False besti = i + k"
proof (induction bs arbitrary: i k)
  case Nil
  then show ?case by simp
next
  case (Cons b bs)
  show ?case
  proof (cases k)
    case 0
    with Cons.prems show ?thesis by (simp add: argmax_scan_True)
  next
    case (Suc m)
    from Cons.prems Suc have nb: "\<not> b" by auto
    from Cons.prems Suc have "m < length bs" "bs ! m" "\<forall>j<m. \<not> bs ! j" by auto
    from Cons.IH [OF this, of "Suc i"] nb Suc show ?thesis by simp
  qed
qed

lemma argmax_first_True:
  assumes "k < length bs" and "bs ! k" and "\<forall>j<k. \<not> bs ! j"
  shows "argmax bs = Inr k"
proof (cases bs)
  case Nil
  with assms show ?thesis by simp
next
  case (Cons b rest)
  show ?thesis
  proof (cases k)
    case 0
    with assms Cons show ?thesis by (simp add: argmax_def argmax_scan_True)
  next
    case (Suc m)
    from assms Cons Suc have nb: "\<not> b" by auto
    from assms Cons Suc have "m < length rest" "rest ! m" "\<forall>j<m. \<not> rest ! j" by auto
    from argmax_scan_first_True [OF this, of 1 0] nb Cons Suc show ?thesis
      by (simp add: argmax_def)
  qed
qed

lemma argmax_all_False:
  assumes "bs \<noteq> []" and "\<forall>b \<in> set bs. \<not> b"
  shows "argmax bs = Inr 0"
proof (cases bs)
  case Nil
  with assms show ?thesis by simp
next
  case (Cons b rest)
  with assms have "\<not> b" "\<forall>b \<in> set rest. \<not> b" by auto
  with Cons show ?thesis by (simp add: argmax_def argmax_scan_all_False)
qed

text \<open>
  C4. The cumulative boundaries of a sequence are the prefix sums of its durations, and
  \<open>apply\<close> on day \<open>t\<close> runs the child whose boundary is the first one to exceed \<open>t\<close>.
\<close>

theorem sequence_dispatch_first_exceeding:
  assumes "sequence_init days ivs = Inr s"
    and "i < length days"
    and "seq_cum_days s ! i > int t"
    and "\<forall>j<i. seq_cum_days s ! j \<le> int t"
  shows "length (seq_cum_days s) = length days
       \<and> (\<forall>k<length days. seq_cum_days s ! k = sum_list (take (Suc k) days))
       \<and> sequence_idx s t = Inr i
       \<and> sequence_apply child_apply s t sim = child_apply (ivs ! i) sim"
proof -
  from assms(1) have len: "length days = length ivs"
    and s: "s = \<lparr>seq_days = days, seq_interventions = ivs, seq_cum_days = cumsum days\<rparr>"
    by (auto simp: sequence_init_def split: if_splits)
  have l: "length (seq_cum_days s) = length days"
    by (simp add: s cumsum_def length_cumsum_from)
  have p: "\<forall>k<length days. seq_cum_days s ! k = sum_list (take (Suc k) days)"
    by (simp add: s cumsum_def nth_cumsum_from)
  let ?m = "map (\<lambda>c. c > int t) (seq_cum_days s)"
  have "i < length ?m" using assms(2) l by simp
  moreover have "?m ! i" using assms(2,3) l by simp
  moreover have "\<forall>j<i. \<not> ?m ! j" using assms(2,4) l by auto
  ultimately have idx: "sequence_idx s t = Inr i"
    unfolding sequence_idx_def by (rule argmax_first_True)
  have "sequence_apply child_apply s t sim = child_apply (ivs ! i) sim"
    using idx assms(2) len by (simp add: sequence_apply_def s)
  with l p idx show ?thesis by simp
qed

theorem sequence_dispatch_first_exceeding_witness:
  "sequence_init [10, 51] [''test_historical'', ''test_prob'']
     = Inr \<lparr>seq_days = [10, 51], seq_interventions = [''test_historical'', ''test_prob''],
            seq_cum_days = [10, 61]\<rparr>
   \<and> sequence_apply (\<lambda>c sim. Inr (c # sim))
        \<lparr>seq_days = [10, 51], seq_interventions = [''test_historical'', ''test_prob''],
         seq_cum_days = [10, 61]\<rparr> 5 [] = Inr [''test_historical'']
   \<and> sequence_apply (\<lambda>c sim. Inr (c # sim))
        \<lparr>seq_days = [10, 51], seq_interventions = [''test_historical'', ''test_prob''],
         seq_cum_days = [10, 61]\<rparr> 15 [] = Inr [''test_prob'']
   \<and> sequence_apply (\<lambda>c sim. Inr (c # sim))
        \<lparr>seq_days = [10, 51], seq_interventions = [''test_historical'', ''test_prob''],
         seq_cum_days = [10, 61]\<rparr> 60 [] = Inr [''test_prob'']"
proof -
  let ?ivs = "[''test_historical'', ''test_prob'']"
  let ?s = "\<lparr>seq_days = [10, 51], seq_interventions = ?ivs, seq_cum_days = [10, 61]\<rparr>"
  let ?ca = "\<lambda>(c::string) (sim::string list). (Inr (c # sim) :: error + string list)"
  have init: "sequence_init [10, 51] ?ivs = Inr ?s"
    by (simp add: sequence_init_def cumsum_def)
  have d5: "sequence_apply ?ca ?s 5 [] = ?ca (?ivs ! 0) []"
    using sequence_dispatch_first_exceeding [OF init, of 0 5 ?ca "[]"] by simp
  have d15: "sequence_apply ?ca ?s 15 [] = ?ca (?ivs ! 1) []"
    using sequence_dispatch_first_exceeding [OF init, of 1 15 ?ca "[]"] by simp
  have d60: "sequence_apply ?ca ?s 60 [] = ?ca (?ivs ! 1) []"
    using sequence_dispatch_first_exceeding [OF init, of 1 60 ?ca "[]"] by simp
  from init d5 d15 d60 show ?thesis by simp
qed

text \<open>
  C9. When no cumulative boundary exceeds the day \<open>t\<close> (the day is at or past every
  boundary) and the sequence has at least one child, the comparison mask is all false,
  its argmax is 0, and \<open>apply\<close> runs the first child: it neither raises nor runs the last
  child.
\<close>

theorem sequence_dispatch_past_end:
  assumes "sequence_init days ivs = Inr s"
    and "days \<noteq> []"
    and "\<forall>c \<in> set (seq_cum_days s). c \<le> int t"
  shows "sequence_idx s t = Inr 0
       \<and> sequence_apply child_apply s t sim = child_apply (ivs ! 0) sim"
proof -
  from assms(1) have len: "length days = length ivs"
    and s: "s = \<lparr>seq_days = days, seq_interventions = ivs, seq_cum_days = cumsum days\<rparr>"
    by (auto simp: sequence_init_def split: if_splits)
  have l: "length (seq_cum_days s) = length days"
    by (simp add: s cumsum_def length_cumsum_from)
  let ?m = "map (\<lambda>c. c > int t) (seq_cum_days s)"
  have "?m \<noteq> []" using assms(2) l by auto
  moreover have "\<forall>b \<in> set ?m. \<not> b" using assms(3) by auto
  ultimately have idx: "sequence_idx s t = Inr 0"
    unfolding sequence_idx_def by (rule argmax_all_False)
  have "ivs \<noteq> []" using assms(2) len by auto
  then have "sequence_apply child_apply s t sim = child_apply (ivs ! 0) sim"
    using idx by (simp add: sequence_apply_def s)
  with idx show ?thesis by simp
qed

theorem sequence_dispatch_past_end_witness:
  "sequence_apply (\<lambda>c sim. Inr (c # sim))
        \<lparr>seq_days = [10, 51], seq_interventions = [''test_historical'', ''test_prob''],
         seq_cum_days = [10, 61]\<rparr> 61 [] = Inr [''test_historical'']
   \<and> sequence_apply (\<lambda>c sim. Inr (c # sim))
        \<lparr>seq_days = [10, 51], seq_interventions = [''test_historical'', ''test_prob''],
         seq_cum_days = [10, 61]\<rparr> 100 [] = Inr [''test_historical'']"
proof -
  let ?ivs = "[''test_historical'', ''test_prob'']"
  let ?s = "\<lparr>seq_days = [10, 51], seq_interventions = ?ivs, seq_cum_days = [10, 61]\<rparr>"
  let ?ca = "\<lambda>(c::string) (sim::string list). (Inr (c # sim) :: error + string list)"
  have init: "sequence_init [10, 51] ?ivs = Inr ?s"
    by (simp add: sequence_init_def cumsum_def)
  have d61: "sequence_apply ?ca ?s 61 [] = ?ca (?ivs ! 0) []"
    using sequence_dispatch_past_end [OF init, of 61 ?ca "[]"] by simp
  have d100: "sequence_apply ?ca ?s 100 [] = ?ca (?ivs ! 0) []"
    using sequence_dispatch_past_end [OF init, of 100 ?ca "[]"] by simp
  from d61 d100 show ?thesis by simp
qed

section \<open>Properties of change beta\<close>

lemma fold_mult_prod:
  "fold (\<lambda>i x. x * changes ! i) inds (b::real) = b * prod_list (map (\<lambda>i. changes ! i) inds)"
  by (induction inds arbitrary: b) (auto simp: algebra_simps)

lemma scale_beta_Inr:
  "scale_beta changes inds v = Inr nb \<Longrightarrow> inds \<noteq> [] \<Longrightarrow>
     \<exists>b. v = Num b \<and> nb = Num (fold (\<lambda>i x. x * changes ! i) inds b)"
proof (induction inds arbitrary: v)
  case Nil
  then show ?case by simp
next
  case (Cons ind inds)
  from Cons.prems(1) obtain b where v: "v = Num b" and lt: "ind < length changes"
    and rec: "scale_beta changes inds (Num (b * changes ! ind)) = Inr nb"
    by (cases v) (auto split: if_splits)
  show ?case
  proof (cases "inds = []")
    case True
    with rec v show ?thesis by simp
  next
    case False
    from Cons.IH [OF rec False] v show ?thesis by auto
  qed
qed

lemma live_beta_set_beta:
  "live_beta (sim_set sim ''beta'' nb) l = (if l = ''overall'' then Inr nb else live_beta sim l)"
  by (simp add: live_beta_def sim_set_def sim_get_def)

lemma live_beta_set_item:
  assumes "sim_set_item sim ''beta_layers'' layer nb = Inr sim1" and "layer \<noteq> ''overall''"
  shows "live_beta sim1 l = (if l = layer then Inr nb else live_beta sim l)"
  using assms
  by (auto simp: live_beta_def sim_set_item_def sim_set_def sim_get_def ebind_def subscript_def
      split: option.splits pval.splits sum.splits if_splits)

lemma apply_changes_frame:
  "apply_changes changes inds ob sim = Inr sim' \<Longrightarrow> l \<notin> fst ` set ob \<Longrightarrow>
     live_beta sim' l = live_beta sim l"
proof (induction ob arbitrary: sim)
  case Nil
  then show ?case by simp
next
  case (Cons entry rest)
  obtain layer new_beta where entry: "entry = (layer, new_beta)" by (cases entry)
  from Cons.prems(2) entry have ne: "l \<noteq> layer" and nin: "l \<notin> fst ` set rest" by auto
  from Cons.prems(1) entry obtain nb where
    nb: "scale_beta changes inds new_beta = Inr nb"
    and step: "(if layer = ''overall'' then apply_changes changes inds rest (sim_set sim ''beta'' nb)
             else ebind (sim_set_item sim ''beta_layers'' layer nb)
                    (apply_changes changes inds rest)) = Inr sim'"
    by (auto simp: ebind_def split: sum.splits)
  show ?case
  proof (cases "layer = ''overall''")
    case True
    with step have "apply_changes changes inds rest (sim_set sim ''beta'' nb) = Inr sim'" by simp
    from Cons.IH [OF this nin] ne True show ?thesis by (simp add: live_beta_set_beta)
  next
    case False
    with step obtain sim1 where s1: "sim_set_item sim ''beta_layers'' layer nb = Inr sim1"
      and r: "apply_changes changes inds rest sim1 = Inr sim'"
      by (auto simp: ebind_def split: sum.splits)
    from Cons.IH [OF r nin] live_beta_set_item [OF s1 False, of l] ne show ?thesis by simp
  qed
qed

lemma apply_changes_live:
  "apply_changes changes inds ob sim = Inr sim' \<Longrightarrow> distinct (map fst ob) \<Longrightarrow> inds \<noteq> [] \<Longrightarrow>
     (layer, base) \<in> set ob \<Longrightarrow>
     \<exists>b. base = Num b \<and> live_beta sim' layer = Inr (Num (fold (\<lambda>i x. x * changes ! i) inds b))"
proof (induction ob arbitrary: sim)
  case Nil
  then show ?case by simp
next
  case (Cons entry rest)
  obtain k new_beta where entry: "entry = (k, new_beta)" by (cases entry)
  from Cons.prems(2) entry have knin: "k \<notin> fst ` set rest" and dr: "distinct (map fst rest)"
    by auto
  from Cons.prems(1) entry obtain nb where
    nb: "scale_beta changes inds new_beta = Inr nb"
    and step: "(if k = ''overall'' then apply_changes changes inds rest (sim_set sim ''beta'' nb)
             else ebind (sim_set_item sim ''beta_layers'' k nb)
                    (apply_changes changes inds rest)) = Inr sim'"
    by (auto simp: ebind_def split: sum.splits)
  from scale_beta_Inr [OF nb Cons.prems(3)] obtain b0 where
    b0: "new_beta = Num b0" "nb = Num (fold (\<lambda>i x. x * changes ! i) inds b0)" by auto
  obtain sim1 where r: "apply_changes changes inds rest sim1 = Inr sim'"
    and l1: "live_beta sim1 k = Inr nb"
  proof (cases "k = ''overall''")
    case True
    with step have "apply_changes changes inds rest (sim_set sim ''beta'' nb) = Inr sim'" by simp
    moreover have "live_beta (sim_set sim ''beta'' nb) k = Inr nb"
      using True by (simp add: live_beta_set_beta)
    ultimately show ?thesis by (rule that)
  next
    case False
    with step obtain s1 where s1: "sim_set_item sim ''beta_layers'' k nb = Inr s1"
      and r: "apply_changes changes inds rest s1 = Inr sim'"
      by (auto simp: ebind_def split: sum.splits)
    from live_beta_set_item [OF s1 False, of k] have "live_beta s1 k = Inr nb" by simp
    with r show ?thesis by (rule that)
  qed
  show ?case
  proof (cases "(layer, base) = (k, new_beta)")
    case True
    from apply_changes_frame [OF r knin] l1 b0 True show ?thesis by simp
  next
    case False
    with Cons.prems(4) entry have "(layer, base) \<in> set rest" by auto
    from Cons.IH [OF r dr Cons.prems(3) this] show ?thesis .
  qed
qed

lemma store_betas_distinct:
  "store_betas sim layers ob = Inr ob' \<Longrightarrow> distinct (map fst ob) \<Longrightarrow> distinct (map fst ob')"
proof (induction sim layers ob rule: store_betas.induct)
  case (1 sim ob)
  then show ?case by simp
next
  case (2 sim layers ob)
  then show ?case by (auto simp: ebind_def distinct_update split: sum.splits)
next
  case (3 sim layer layers ob)
  then show ?case by (auto simp: ebind_def distinct_update split: sum.splits)
qed


text \<open>
  C2. When the day matches schedule entries, every entry of the cached baselines (keyed
  by \<open>'overall'\<close> or a layer name) has its live value overwritten by the cached baseline
  multiplied, in schedule order, by each matching change factor, that is by the baseline
  times the product of the matching factors. The cache itself, once taken, is not changed,
  so the live value never feeds back into the result.
\<close>

theorem change_beta_scales_cached_baseline:
  assumes "change_beta_apply cb sim = Inr (cb', sim')"
    and "cb_orig_betas cb = None \<or> (\<exists>ob. cb_orig_betas cb = Some ob \<and> distinct (map fst ob))"
    and "findinds (cb_days cb) (int (sim_t sim)) = inds"
    and "inds \<noteq> []"
  shows "\<exists>ob. cb_orig_betas cb' = Some ob
           \<and> distinct (map fst ob)
           \<and> (cb_orig_betas cb \<noteq> None \<longrightarrow> cb_orig_betas cb = Some ob)
           \<and> (\<forall>(layer, base) \<in> set ob. \<exists>b. base = Num b
                 \<and> live_beta sim' layer
                     = Inr (Num (fold (\<lambda>i x. x * cb_changes cb ! i) inds b))
                 \<and> fold (\<lambda>i x. x * cb_changes cb ! i) inds b
                     = b * prod_list (map (\<lambda>i. cb_changes cb ! i) inds))"
proof -
  from assms(1,3,4) obtain ob where
    ob: "(case cb_orig_betas cb of None \<Rightarrow> store_betas sim (cb_layers cb) [] | Some ob \<Rightarrow> Inr ob)
           = Inr ob"
    and cb': "cb' = cb\<lparr>cb_orig_betas := Some ob\<rparr>"
    and ac: "apply_changes (cb_changes cb) inds ob sim = Inr sim'"
    by (auto simp: change_beta_apply_def ebind_def Let_def split: sum.splits)
  have d: "distinct (map fst ob)"
  proof (cases "cb_orig_betas cb")
    case None
    with ob have "store_betas sim (cb_layers cb) [] = Inr ob" by simp
    from store_betas_distinct [OF this] show ?thesis by simp
  next
    case (Some ob0)
    with ob assms(2) show ?thesis by auto
  qed
  have same: "cb_orig_betas cb \<noteq> None \<longrightarrow> cb_orig_betas cb = Some ob"
    using ob by (auto split: option.splits)
  have "\<forall>(layer, base) \<in> set ob. \<exists>b. base = Num b
          \<and> live_beta sim' layer = Inr (Num (fold (\<lambda>i x. x * cb_changes cb ! i) inds b))
          \<and> fold (\<lambda>i x. x * cb_changes cb ! i) inds b
              = b * prod_list (map (\<lambda>i. cb_changes cb ! i) inds)"
    using apply_changes_live [OF ac d assms(4)] fold_mult_prod by fastforce
  with d same cb' show ?thesis by simp
qed

theorem change_beta_scales_cached_baseline_witness:
  "change_beta_apply
      \<lparr>cb_days = [10, 10], cb_changes = [1/2, 1/2], cb_layers = [None], cb_orig_betas = None\<rparr>
      \<lparr>sim_t = 0, sim_pars = [''beta'' \<mapsto> Num (15/1000)], sim_people = [],
       sim_results = \<lparr>new_tests = [], new_diagnoses = []\<rparr>, sim_rng = ()\<rparr>
    = Inr (\<lparr>cb_days = [10, 10], cb_changes = [1/2, 1/2], cb_layers = [None],
            cb_orig_betas = Some [(''overall'', Num (15/1000))]\<rparr>,
           \<lparr>sim_t = 0, sim_pars = [''beta'' \<mapsto> Num (15/1000)], sim_people = [],
            sim_results = \<lparr>new_tests = [], new_diagnoses = []\<rparr>, sim_rng = ()\<rparr>)
   \<and> (\<exists>cb' sim'. change_beta_apply
          \<lparr>cb_days = [10, 10], cb_changes = [1/2, 1/2], cb_layers = [None],
           cb_orig_betas = Some [(''overall'', Num (15/1000))]\<rparr>
          \<lparr>sim_t = 10, sim_pars = [''beta'' \<mapsto> Num (15/1000)], sim_people = [],
           sim_results = \<lparr>new_tests = [], new_diagnoses = []\<rparr>, sim_rng = ()\<rparr>
            = Inr (cb', sim')
        \<and> live_beta sim' ''overall'' = Inr (Num (375/100000)))"
proof -
  let ?cb0 = "\<lparr>cb_days = [10, 10], cb_changes = [1/2, 1/2], cb_layers = [None],
               cb_orig_betas = None\<rparr>"
  let ?cb1 = "\<lparr>cb_days = [10, 10], cb_changes = [1/2, 1/2], cb_layers = [None],
               cb_orig_betas = Some [(''overall'', Num (15/1000))]\<rparr>"
  let ?sim = "\<lambda>t. \<lparr>sim_t = t, sim_pars = [''beta'' \<mapsto> Num (15/1000)], sim_people = [],
                    sim_results = \<lparr>new_tests = [], new_diagnoses = []\<rparr>, sim_rng = ()\<rparr>"
  have inds0: "findinds [10, 10] 0 = []"
    by (simp add: findinds_def)
  have inds10: "findinds [10, 10] 10 = [0, 1]"
    by (simp add: findinds_def upt_rec)
  have inds: "findinds (cb_days ?cb1) (int (sim_t (?sim 10))) = [0, 1]"
    by (simp add: inds10)
  have first: "change_beta_apply ?cb0 (?sim 0) = Inr (?cb1, ?sim 0)"
    by (simp add: change_beta_apply_def ebind_def sim_get_def inds0)
  obtain cb' sim' where run: "change_beta_apply ?cb1 (?sim 10) = Inr (cb', sim')"
    by (simp add: change_beta_apply_def ebind_def sim_get_def sim_set_def Let_def inds10)
  have pre: "cb_orig_betas ?cb1 = None
      \<or> (\<exists>ob. cb_orig_betas ?cb1 = Some ob \<and> distinct (map fst ob))"
    by simp
  from change_beta_scales_cached_baseline [OF run pre inds] run
  have "live_beta sim' ''overall'' = Inr (Num (375/100000))"
    by (auto simp: inds10)
  with first run show ?thesis by blast
qed

section \<open>Properties of test num\<close>

lemma pf_add_zero_right: "pf_add x (Fin 0) = x"
  by (cases x) auto

lemma pf_add_zero_left: "pf_add (Fin 0) x = x"
  by (cases x) auto

lemma scan_people_shape:
  "scan_people check_diagnosed tn t ps = (ps', probs, nd) \<Longrightarrow>
     length ps' = length ps \<and> probs = map (test_prob tn) ps'
       \<and> ps' = map (\<lambda>p. fst (check_diagnosed t p)) ps"
proof (induction ps arbitrary: ps' probs nd)
  case Nil
  then show ?case by simp
next
  case (Cons p ps)
  obtain p1 k where c: "check_diagnosed t p = (p1, k)" by (cases "check_diagnosed t p")
  obtain qs pr m where r: "scan_people check_diagnosed tn t ps = (qs, pr, m)"
    by (cases "scan_people check_diagnosed tn t ps")
  from Cons.prems c r have "ps' = p1 # qs" "probs = test_prob tn p1 # pr" by auto
  with Cons.IH [OF r] c show ?case by simp
qed

lemma test_prob_formula:
  "test_prob tn p =
     (if diagnosed p then 0
      else (if symptomatic p then tn_sympt_test tn else 1)
           * (if known_contact p then tn_trace_test tn else 1))"
  by (simp add: test_prob_def)

lemma test_people_total:
  "\<forall>i \<in> set inds. i < length people \<Longrightarrow>
     \<exists>people2 g2. test_people person_test tn t inds people g = Inr (people2, g2)
        \<and> length people2 = length people
        \<and> (\<forall>j. j \<notin> set inds \<longrightarrow> people2 ! j = people ! j)"
proof (induction inds arbitrary: people g)
  case Nil
  then show ?case by simp
next
  case (Cons i inds)
  obtain p' g' where pt:
    "person_test t (tn_sensitivity tn) (tn_test_delay tn) (people ! i) g = (p', g')"
    by (cases "person_test t (tn_sensitivity tn) (tn_test_delay tn) (people ! i) g")
  from Cons.prems have i: "i < length people"
    and rest: "\<forall>j \<in> set inds. j < length (people[i := p'])" by auto
  from Cons.IH [OF rest, of g'] obtain people2 g2 where
    r: "test_people person_test tn t inds (people[i := p']) g' = Inr (people2, g2)"
    and l: "length people2 = length people"
    and u: "\<forall>j. j \<notin> set inds \<longrightarrow> people2 ! j = (people[i := p']) ! j" by auto
  from r i pt have "test_people person_test tn t (i # inds) people g = Inr (people2, g2)"
    by simp
  moreover from u have "\<forall>j. j \<notin> set (i # inds) \<longrightarrow> people2 ! j = people ! j" by auto
  ultimately show ?case using l by blast
qed

lemma weighted_sampler_in_range:
  assumes "weighted_sampler choose_weighted"
    and "choose_weighted probs n g = (inds, g1)"
  shows "distinct inds \<and> (\<forall>i \<in> set inds. i < length probs \<and> 0 < probs ! i)"
proof -
  from assms(1) have
    "distinct (fst (choose_weighted probs n g))
     \<and> set (fst (choose_weighted probs n g)) \<subseteq> {i. i < length probs \<and> 0 < probs ! i}"
    unfolding weighted_sampler_def Let_def by blast
  with assms(2) show ?thesis by auto
qed

lemma select_tests_shape:
  assumes "weighted_sampler choose_weighted"
    and "select_tests check_diagnosed choose_weighted tn t n people g
           = (people1, test_probs, new_diag, test_inds, g1)"
  shows "length people1 = length people \<and> test_probs = map (test_prob tn) people1
       \<and> people1 = map (\<lambda>p. fst (check_diagnosed t p)) people
       \<and> distinct test_inds
       \<and> (\<forall>i \<in> set test_inds. i < length people1 \<and> 0 < test_probs ! i)"
proof -
  obtain ps pr nd where sc: "scan_people check_diagnosed tn t people = (ps, pr, nd)"
    by (cases "scan_people check_diagnosed tn t people")
  obtain inds g' where cw: "choose_weighted pr n g = (inds, g')"
    by (cases "choose_weighted pr n g")
  from assms(2) sc cw have eq: "people1 = ps" "test_probs = pr" "test_inds = inds"
    by (auto simp: select_tests_def)
  from scan_people_shape [OF sc] have sh: "length ps = length people" "pr = map (test_prob tn) ps"
    "ps = map (\<lambda>p. fst (check_diagnosed t p)) people"
    by auto
  from weighted_sampler_in_range [OF assms(1) cw] sh eq show ?thesis by auto
qed

lemma test_num_apply_budget_day:
  assumes "weighted_sampler choose_weighted"
    and "sim_t sim < length (tn_daily_tests tn)"
    and "sim_t sim < length (new_tests (sim_results sim))"
    and "sim_t sim < length (new_diagnoses (sim_results sim))"
  shows "\<exists>sim'. test_num_apply check_diagnosed choose_weighted person_test tn sim = Inr sim'
           \<and> new_tests (sim_results sim')
               = (new_tests (sim_results sim))
                   [sim_t sim := pf_add (new_tests (sim_results sim) ! sim_t sim)
                                        (tn_daily_tests tn ! sim_t sim)]
           \<and> length (new_diagnoses (sim_results sim')) = length (new_diagnoses (sim_results sim))"
proof -
  let ?t = "sim_t sim"
  let ?n = "tn_daily_tests tn ! ?t"
  let ?nt = "(new_tests (sim_results sim))[?t := pf_add (new_tests (sim_results sim) ! ?t) ?n]"
  let ?sim1 = "sim\<lparr>sim_results := (sim_results sim)\<lparr>new_tests := ?nt\<rparr>\<rparr>"
  have ra: "results_add (new_tests (sim_results sim)) ?t ?n = Inr ?nt"
    using assms(3) by (simp add: results_add_def)
  show ?thesis
  proof (cases "pf_truthy ?n \<and> pf_isfinite ?n")
    case False
    then have "test_num_apply check_diagnosed choose_weighted person_test tn sim = Inr ?sim1"
      using assms(2) ra by (simp add: test_num_apply_def ebind_def Let_def)
    then show ?thesis by simp
  next
    case True
    obtain people1 test_probs new_diag test_inds g1 where
      sel: "select_tests check_diagnosed choose_weighted tn ?t ?n (sim_people sim) (sim_rng sim)
              = (people1, test_probs, new_diag, test_inds, g1)"
      by (metis prod_cases5)
    from select_tests_shape [OF assms(1) sel]
    have "\<forall>i \<in> set test_inds. i < length people1" by auto
    from test_people_total [OF this, of person_test tn ?t g1] obtain people2 g2 where
      tp: "test_people person_test tn ?t test_inds people1 g1 = Inr (people2, g2)" by auto
    let ?nd = "(new_diagnoses (sim_results sim))
                 [?t := pf_add (new_diagnoses (sim_results sim) ! ?t) (Fin (real new_diag))]"
    have rd: "results_add (new_diagnoses (sim_results ?sim1)) ?t (Fin (real new_diag)) = Inr ?nd"
      using assms(4) by (simp add: results_add_def)
    have "test_num_apply check_diagnosed choose_weighted person_test tn sim
            = Inr (?sim1\<lparr>sim_people := people2,
                         sim_results := (sim_results ?sim1)\<lparr>new_diagnoses := ?nd\<rparr>,
                         sim_rng := g2\<rparr>)"
      using assms(2) ra True sel rd tp
      by (simp add: test_num_apply_def ebind_def Let_def)
    then show ?thesis by simp
  qed
qed


lemma run_test_num_budget:
  assumes "weighted_sampler choose_weighted"
    and "distinct days"
    and "\<forall>d \<in> set days. d < length (tn_daily_tests tn)
           \<and> d < length (new_tests (sim_results sim))
           \<and> d < length (new_diagnoses (sim_results sim))"
  shows "\<exists>sim'. run_test_num check_diagnosed choose_weighted person_test tn days sim = Inr sim'
           \<and> length (new_tests (sim_results sim')) = length (new_tests (sim_results sim))
           \<and> (\<forall>d < length (new_tests (sim_results sim)).
                 new_tests (sim_results sim') ! d
                   = (if d \<in> set days
                      then pf_add (new_tests (sim_results sim) ! d) (tn_daily_tests tn ! d)
                      else new_tests (sim_results sim) ! d))"
  using assms(2,3)
proof (induction days arbitrary: sim)
  case Nil
  then show ?case by simp
next
  case (Cons day days)
  let ?s = "sim\<lparr>sim_t := day\<rparr>"
  let ?nt = "new_tests (sim_results sim)"
  from Cons.prems(2) have d: "sim_t ?s < length (tn_daily_tests tn)"
    "sim_t ?s < length (new_tests (sim_results ?s))"
    "sim_t ?s < length (new_diagnoses (sim_results ?s))" by auto
  from test_num_apply_budget_day [OF assms(1) d, of check_diagnosed person_test]
  obtain sim1 where
    a: "test_num_apply check_diagnosed choose_weighted person_test tn ?s = Inr sim1"
    and nt1: "new_tests (sim_results sim1) = ?nt[day := pf_add (?nt ! day) (tn_daily_tests tn ! day)]"
    and nd1: "length (new_diagnoses (sim_results sim1)) = length (new_diagnoses (sim_results sim))"
    by auto
  from Cons.prems have dist: "distinct days" and notin: "day \<notin> set days" by auto
  from Cons.prems(2) nt1 nd1 have
    "\<forall>d \<in> set days. d < length (tn_daily_tests tn)
       \<and> d < length (new_tests (sim_results sim1))
       \<and> d < length (new_diagnoses (sim_results sim1))" by auto
  from Cons.IH [OF dist this] obtain sim' where
    r: "run_test_num check_diagnosed choose_weighted person_test tn days sim1 = Inr sim'"
    and l: "length (new_tests (sim_results sim')) = length (new_tests (sim_results sim1))"
    and v: "\<forall>d < length (new_tests (sim_results sim1)).
              new_tests (sim_results sim') ! d
                = (if d \<in> set days
                   then pf_add (new_tests (sim_results sim1) ! d) (tn_daily_tests tn ! d)
                   else new_tests (sim_results sim1) ! d)" by auto
  have run: "run_test_num check_diagnosed choose_weighted person_test tn (day # days) sim = Inr sim'"
    using a r by (simp add: ebind_def)
  have len: "length (new_tests (sim_results sim')) = length ?nt"
    using l nt1 by simp
  have "\<forall>d < length ?nt.
          new_tests (sim_results sim') ! d
            = (if d \<in> set (day # days) then pf_add (?nt ! d) (tn_daily_tests tn ! d) else ?nt ! d)"
  proof (intro allI impI)
    fix d assume dl: "d < length ?nt"
    with v nt1 have e: "new_tests (sim_results sim') ! d
                = (if d \<in> set days
                   then pf_add (new_tests (sim_results sim1) ! d) (tn_daily_tests tn ! d)
                   else new_tests (sim_results sim1) ! d)" by simp
    show "new_tests (sim_results sim') ! d
            = (if d \<in> set (day # days) then pf_add (?nt ! d) (tn_daily_tests tn ! d) else ?nt ! d)"
    proof (cases "d = day")
      case True
      with e notin nt1 dl show ?thesis by simp
    next
      case False
      with e nt1 show ?thesis by simp
    qed
  qed
  with run len show ?case by blast
qed

lemma first_eligible_sampler:
  "weighted_sampler
     (\<lambda>probs n g. (case n of
                      Fin x \<Rightarrow> take (nat \<lfloor>x\<rfloor>) (filter (\<lambda>i. 0 < probs ! i) [0..<length probs])
                    | _ \<Rightarrow> [], g))"
proof -
  have "distinct (take k (filter (\<lambda>i. 0 < probs ! i) [0..<length probs]))
      \<and> set (take k (filter (\<lambda>i. 0 < probs ! i) [0..<length probs]))
          \<subseteq> {i. i < length probs \<and> 0 < probs ! i}" for k and probs :: "real list"
    using set_take_subset [of k "filter (\<lambda>i. 0 < probs ! i) [0..<length probs]"] by auto
  moreover have "real (length (take (nat \<lfloor>x\<rfloor>) xs)) \<le> max 0 x" for x :: real and xs :: "nat list"
  proof (cases "0 \<le> x")
    case True
    have "real (length (take (nat \<lfloor>x\<rfloor>) xs)) \<le> real (nat \<lfloor>x\<rfloor>)" by simp
    also have "\<dots> \<le> x" using True by (simp add: of_nat_nat)
    finally show ?thesis by simp
  next
    case False
    then have "nat \<lfloor>x\<rfloor> = 0" by simp
    then show ?thesis by simp
  qed
  moreover have "set (take (nat \<lfloor>x\<rfloor>) (filter (\<lambda>i. 0 < probs ! i) [0..<length probs]))
                   = {i. i < length probs \<and> 0 < probs ! i}"
    if "real (card {i. i < length probs \<and> 0 < probs ! i}) \<le> x" for x and probs :: "real list"
  proof -
    let ?xs = "filter (\<lambda>i. 0 < probs ! i) [0..<length probs]"
    have s: "set ?xs = {i. i < length probs \<and> 0 < probs ! i}" by auto
    have "distinct ?xs" by simp
    then have "card (set ?xs) = length ?xs" by (rule distinct_card)
    with that s have "real (length ?xs) \<le> x" by simp
    then have "length ?xs \<le> nat \<lfloor>x\<rfloor>" by (simp add: le_nat_floor)
    then have "take (nat \<lfloor>x\<rfloor>) ?xs = ?xs" by simp
    with s show ?thesis by simp
  qed
  ultimately show ?thesis
    unfolding weighted_sampler_def Let_def by (auto split: pyfloat.splits)
qed


text \<open>
  C5. On a day past the end of \<open>daily_tests\<close>, \<open>apply\<close> returns at once and changes
  nothing. On a day \<open>t\<close> within it (and within the result arrays), \<open>apply\<close> completes and
  its only change to \<open>new_tests\<close> is that \<open>daily_tests[t]\<close> has been added to entry
  \<open>t\<close>. Applied on days 0 to 4 with \<open>daily_tests = [2,2,2,2,2]\<close> to result arrays of
  zeros, it leaves \<open>new_tests = [2,2,2,2,2]\<close>, whoever is eligible.
\<close>

theorem test_num_adds_daily_budget:
  assumes "weighted_sampler choose_weighted"
  shows "(length (tn_daily_tests tn) \<le> sim_t sim \<longrightarrow>
           test_num_apply check_diagnosed choose_weighted person_test tn sim = Inr sim)
       \<and> (sim_t sim < length (tn_daily_tests tn)
           \<and> sim_t sim < length (new_tests (sim_results sim))
           \<and> sim_t sim < length (new_diagnoses (sim_results sim)) \<longrightarrow>
           (\<exists>sim'. test_num_apply check_diagnosed choose_weighted person_test tn sim = Inr sim'
              \<and> new_tests (sim_results sim')
                  = (new_tests (sim_results sim))
                      [sim_t sim := pf_add (new_tests (sim_results sim) ! sim_t sim)
                                           (tn_daily_tests tn ! sim_t sim)]))
       \<and> (tn_daily_tests tn = replicate 5 (Fin 2)
           \<and> new_tests (sim_results sim) = replicate 5 (Fin 0)
           \<and> length (new_diagnoses (sim_results sim)) = 5 \<longrightarrow>
           (\<exists>sim'. run_test_num check_diagnosed choose_weighted person_test tn [0, 1, 2, 3, 4] sim
                     = Inr sim'
              \<and> new_tests (sim_results sim') = replicate 5 (Fin 2)))"
proof (intro conjI impI)
  assume "length (tn_daily_tests tn) \<le> sim_t sim"
  then show "test_num_apply check_diagnosed choose_weighted person_test tn sim = Inr sim"
    by (simp add: test_num_apply_def)
next
  assume "sim_t sim < length (tn_daily_tests tn)
           \<and> sim_t sim < length (new_tests (sim_results sim))
           \<and> sim_t sim < length (new_diagnoses (sim_results sim))"
  then have d: "sim_t sim < length (tn_daily_tests tn)"
    "sim_t sim < length (new_tests (sim_results sim))"
    "sim_t sim < length (new_diagnoses (sim_results sim))" by auto
  from test_num_apply_budget_day [OF assms d, of check_diagnosed person_test]
  show "\<exists>sim'. test_num_apply check_diagnosed choose_weighted person_test tn sim = Inr sim'
              \<and> new_tests (sim_results sim')
                  = (new_tests (sim_results sim))
                      [sim_t sim := pf_add (new_tests (sim_results sim) ! sim_t sim)
                                           (tn_daily_tests tn ! sim_t sim)]"
    by blast
next
  assume a: "tn_daily_tests tn = replicate 5 (Fin 2)
           \<and> new_tests (sim_results sim) = replicate 5 (Fin 0)
           \<and> length (new_diagnoses (sim_results sim)) = 5"
  have dist: "distinct [0, 1, 2, 3, 4::nat]" by simp
  have rng: "\<forall>d \<in> set [0, 1, 2, 3, 4::nat]. d < length (tn_daily_tests tn)
           \<and> d < length (new_tests (sim_results sim))
           \<and> d < length (new_diagnoses (sim_results sim))"
    using a by simp
  from run_test_num_budget [OF assms dist rng, of check_diagnosed person_test]
  obtain sim' where
    r: "run_test_num check_diagnosed choose_weighted person_test tn [0, 1, 2, 3, 4] sim = Inr sim'"
    and l: "length (new_tests (sim_results sim')) = length (new_tests (sim_results sim))"
    and v: "\<forall>d < length (new_tests (sim_results sim)).
                 new_tests (sim_results sim') ! d
                   = (if d \<in> set [0, 1, 2, 3, 4]
                      then pf_add (new_tests (sim_results sim) ! d) (tn_daily_tests tn ! d)
                      else new_tests (sim_results sim) ! d)" by blast
  have "new_tests (sim_results sim') = replicate 5 (Fin 2)"
  proof (rule nth_equalityI)
    show "length (new_tests (sim_results sim')) = length (replicate 5 (Fin 2))"
      using l a by simp
  next
    fix d assume "d < length (new_tests (sim_results sim'))"
    with l a have d5: "d < 5" by simp
    then have "d \<in> set [0, 1, 2, 3, 4]" by auto
    with v d5 a have "new_tests (sim_results sim') ! d = pf_add (Fin 0) (Fin 2)" by simp
    with d5 show "new_tests (sim_results sim') ! d = replicate 5 (Fin 2) ! d" by simp
  qed
  with r show "\<exists>sim'. run_test_num check_diagnosed choose_weighted person_test tn [0, 1, 2, 3, 4] sim
                     = Inr sim'
              \<and> new_tests (sim_results sim') = replicate 5 (Fin 2)" by blast
qed


theorem test_num_adds_daily_budget_witness:
  "(\<exists>sim'. run_test_num (\<lambda>t p. (p, 0)) (\<lambda>probs n g. (case n of
                           Fin x \<Rightarrow> take (nat \<lfloor>x\<rfloor>)
                                     (filter (\<lambda>i. 0 < probs ! i) [0..<length probs])
                         | _ \<Rightarrow> [], g)) (\<lambda>t sens delay p g. (p\<lparr>date_diagnosed := Some (int t + delay)\<rparr>, g))
             \<lparr>tn_daily_tests = replicate 5 (Fin 2), tn_sympt_test = 100, tn_trace_test = 1, tn_sensitivity = 1, tn_test_delay = 0\<rparr> [0, 1, 2, 3, 4]
             \<lparr>sim_t = 0, sim_pars = Map.empty, sim_people = [\<lparr>symptomatic = True, infectious = False, diagnosed = False, known_contact = False, date_diagnosed = None, date_known_contact = None, dyn_cont_ppl = []\<rparr>,
      \<lparr>symptomatic = True, infectious = False, diagnosed = True, known_contact = False, date_diagnosed = None, date_known_contact = None, dyn_cont_ppl = []\<rparr>,
      \<lparr>symptomatic = False, infectious = False, diagnosed = False, known_contact = False, date_diagnosed = None, date_known_contact = None, dyn_cont_ppl = []\<rparr>], sim_results = \<lparr>new_tests = replicate 5 (Fin 0), new_diagnoses = replicate 5 (Fin 0)\<rparr>, sim_rng = ()\<rparr> = Inr sim'
      \<and> new_tests (sim_results sim') = replicate 5 (Fin 2))
   \<and> test_num_apply (\<lambda>t p. (p, 0)) (\<lambda>probs n g. (case n of
                           Fin x \<Rightarrow> take (nat \<lfloor>x\<rfloor>)
                                     (filter (\<lambda>i. 0 < probs ! i) [0..<length probs])
                         | _ \<Rightarrow> [], g)) (\<lambda>t sens delay p g. (p\<lparr>date_diagnosed := Some (int t + delay)\<rparr>, g))
        \<lparr>tn_daily_tests = replicate 5 (Fin 2), tn_sympt_test = 100, tn_trace_test = 1, tn_sensitivity = 1, tn_test_delay = 0\<rparr>
        \<lparr>sim_t = 5, sim_pars = Map.empty, sim_people = [\<lparr>symptomatic = True, infectious = False, diagnosed = False, known_contact = False, date_diagnosed = None, date_known_contact = None, dyn_cont_ppl = []\<rparr>,
      \<lparr>symptomatic = True, infectious = False, diagnosed = True, known_contact = False, date_diagnosed = None, date_known_contact = None, dyn_cont_ppl = []\<rparr>,
      \<lparr>symptomatic = False, infectious = False, diagnosed = False, known_contact = False, date_diagnosed = None, date_known_contact = None, dyn_cont_ppl = []\<rparr>], sim_results = \<lparr>new_tests = replicate 5 (Fin 0), new_diagnoses = replicate 5 (Fin 0)\<rparr>, sim_rng = ()\<rparr>
      = Inr \<lparr>sim_t = 5, sim_pars = Map.empty, sim_people = [\<lparr>symptomatic = True, infectious = False, diagnosed = False, known_contact = False, date_diagnosed = None, date_known_contact = None, dyn_cont_ppl = []\<rparr>,
      \<lparr>symptomatic = True, infectious = False, diagnosed = True, known_contact = False, date_diagnosed = None, date_known_contact = None, dyn_cont_ppl = []\<rparr>,
      \<lparr>symptomatic = False, infectious = False, diagnosed = False, known_contact = False, date_diagnosed = None, date_known_contact = None, dyn_cont_ppl = []\<rparr>], sim_results = \<lparr>new_tests = replicate 5 (Fin 0), new_diagnoses = replicate 5 (Fin 0)\<rparr>, sim_rng = ()\<rparr>"
proof -
  let ?cd = "(\<lambda>t p. (p, 0)) :: nat \<Rightarrow> person \<Rightarrow> person \<times> nat"
  let ?cw = "(\<lambda>probs n g. (case n of
                           Fin x \<Rightarrow> take (nat \<lfloor>x\<rfloor>)
                                     (filter (\<lambda>i. 0 < probs ! i) [0..<length probs])
                         | _ \<Rightarrow> [], g)) :: real list \<Rightarrow> pyfloat \<Rightarrow> unit \<Rightarrow> nat list \<times> unit"
  let ?pt = "(\<lambda>t sens delay p g. (p\<lparr>date_diagnosed := Some (int t + delay)\<rparr>, g)) :: nat \<Rightarrow> real \<Rightarrow> int \<Rightarrow> person \<Rightarrow> unit \<Rightarrow> person \<times> unit"
  let ?tn = "\<lparr>tn_daily_tests = replicate 5 (Fin 2), tn_sympt_test = 100, tn_trace_test = 1, tn_sensitivity = 1, tn_test_delay = 0\<rparr>"
  let ?sim0 = "\<lparr>sim_t = 0, sim_pars = Map.empty, sim_people = [\<lparr>symptomatic = True, infectious = False, diagnosed = False, known_contact = False, date_diagnosed = None, date_known_contact = None, dyn_cont_ppl = []\<rparr>,
      \<lparr>symptomatic = True, infectious = False, diagnosed = True, known_contact = False, date_diagnosed = None, date_known_contact = None, dyn_cont_ppl = []\<rparr>,
      \<lparr>symptomatic = False, infectious = False, diagnosed = False, known_contact = False, date_diagnosed = None, date_known_contact = None, dyn_cont_ppl = []\<rparr>], sim_results = \<lparr>new_tests = replicate 5 (Fin 0), new_diagnoses = replicate 5 (Fin 0)\<rparr>, sim_rng = ()\<rparr>"
  let ?sim5 = "\<lparr>sim_t = 5, sim_pars = Map.empty, sim_people = [\<lparr>symptomatic = True, infectious = False, diagnosed = False, known_contact = False, date_diagnosed = None, date_known_contact = None, dyn_cont_ppl = []\<rparr>,
      \<lparr>symptomatic = True, infectious = False, diagnosed = True, known_contact = False, date_diagnosed = None, date_known_contact = None, dyn_cont_ppl = []\<rparr>,
      \<lparr>symptomatic = False, infectious = False, diagnosed = False, known_contact = False, date_diagnosed = None, date_known_contact = None, dyn_cont_ppl = []\<rparr>], sim_results = \<lparr>new_tests = replicate 5 (Fin 0), new_diagnoses = replicate 5 (Fin 0)\<rparr>, sim_rng = ()\<rparr>"
  have sampler: "weighted_sampler ?cw" by (rule first_eligible_sampler)
  from test_num_adds_daily_budget [OF sampler, of ?tn ?sim0 ?cd ?pt]
  have a: "\<exists>sim'. run_test_num ?cd ?cw ?pt ?tn [0, 1, 2, 3, 4] ?sim0 = Inr sim'
      \<and> new_tests (sim_results sim') = replicate 5 (Fin 2)" by simp
  from test_num_adds_daily_budget [OF sampler, of ?tn ?sim5 ?cd ?pt]
  have b: "test_num_apply ?cd ?cw ?pt ?tn ?sim5 = Inr ?sim5" by simp
  from a b show ?thesis by blast
qed

text \<open>
  C6. On a day on which \<open>apply\<close> draws tests, each agent's propensity is 1, times the
  symptomatic factor if symptomatic, times the traced-contact factor if a known contact,
  and 0 if diagnosed (the flags as they stand after \<open>check_diagnosed\<close>). Under the
  sampler's contract no selected index is that of a diagnosed agent, the agents tested
  are the selected ones, and every diagnosed agent is left as it was.
\<close>

theorem test_num_never_selects_diagnosed:
  assumes "weighted_sampler choose_weighted"
    and "select_tests check_diagnosed choose_weighted tn (sim_t sim) n (sim_people sim) (sim_rng sim)
           = (people1, test_probs, new_diag, test_inds, g1)"
  shows "length people1 = length (sim_people sim)
       \<and> length test_probs = length people1
       \<and> (\<forall>i < length people1.
             people1 ! i = fst (check_diagnosed (sim_t sim) (sim_people sim ! i))
             \<and> test_probs ! i
                 = (if diagnosed (people1 ! i) then 0
                    else (if symptomatic (people1 ! i) then tn_sympt_test tn else 1)
                         * (if known_contact (people1 ! i) then tn_trace_test tn else 1)))
       \<and> (\<forall>i \<in> set test_inds. i < length people1 \<and> \<not> diagnosed (people1 ! i))
       \<and> (sim_t sim < length (tn_daily_tests tn) \<and> n = tn_daily_tests tn ! sim_t sim
           \<and> pf_truthy n \<and> pf_isfinite n
           \<and> test_num_apply check_diagnosed choose_weighted person_test tn sim = Inr sim' \<longrightarrow>
             test_people person_test tn (sim_t sim) test_inds people1 g1
               = Inr (sim_people sim', sim_rng sim')
             \<and> (\<forall>j < length people1. diagnosed (people1 ! j) \<longrightarrow> sim_people sim' ! j = people1 ! j))"
proof -
  from select_tests_shape [OF assms] have
    len: "length people1 = length (sim_people sim)"
    and probs: "test_probs = map (test_prob tn) people1"
    and ppl: "people1 = map (\<lambda>p. fst (check_diagnosed (sim_t sim) p)) (sim_people sim)"
    and pos: "\<forall>i \<in> set test_inds. i < length people1 \<and> 0 < test_probs ! i"
    by auto
  have f: "\<forall>i < length people1.
             people1 ! i = fst (check_diagnosed (sim_t sim) (sim_people sim ! i))
             \<and> test_probs ! i
                 = (if diagnosed (people1 ! i) then 0
                    else (if symptomatic (people1 ! i) then tn_sympt_test tn else 1)
                         * (if known_contact (people1 ! i) then tn_trace_test tn else 1))"
  proof (intro allI impI)
    fix i assume i: "i < length people1"
    with ppl len have "people1 ! i = fst (check_diagnosed (sim_t sim) (sim_people sim ! i))"
      by (metis nth_map)
    moreover from i probs have "test_probs ! i = test_prob tn (people1 ! i)" by simp
    ultimately show "people1 ! i = fst (check_diagnosed (sim_t sim) (sim_people sim ! i))
             \<and> test_probs ! i
                 = (if diagnosed (people1 ! i) then 0
                    else (if symptomatic (people1 ! i) then tn_sympt_test tn else 1)
                         * (if known_contact (people1 ! i) then tn_trace_test tn else 1))"
      by (simp only: test_prob_formula)
  qed
  have nd: "\<forall>i \<in> set test_inds. i < length people1 \<and> \<not> diagnosed (people1 ! i)"
  proof
    fix i assume "i \<in> set test_inds"
    with pos have i: "i < length people1" and p: "0 < test_probs ! i" by auto
    from i probs have "test_probs ! i = test_prob tn (people1 ! i)" by simp
    with p have "\<not> diagnosed (people1 ! i)" by (auto simp: test_prob_formula)
    with i show "i < length people1 \<and> \<not> diagnosed (people1 ! i)" by simp
  qed
  have ap: "test_people person_test tn (sim_t sim) test_inds people1 g1
               = Inr (sim_people sim', sim_rng sim')
             \<and> (\<forall>j < length people1. diagnosed (people1 ! j) \<longrightarrow> sim_people sim' ! j = people1 ! j)"
    if h: "sim_t sim < length (tn_daily_tests tn) \<and> n = tn_daily_tests tn ! sim_t sim
           \<and> pf_truthy n \<and> pf_isfinite n
           \<and> test_num_apply check_diagnosed choose_weighted person_test tn sim = Inr sim'"
  proof -
    from nd have "\<forall>i \<in> set test_inds. i < length people1" by auto
    from test_people_total [OF this, of person_test tn "sim_t sim" g1] obtain people2 g2 where
      tp: "test_people person_test tn (sim_t sim) test_inds people1 g1 = Inr (people2, g2)"
      and keep: "\<forall>j. j \<notin> set test_inds \<longrightarrow> people2 ! j = people1 ! j" by auto
    from h assms(2) tp have "sim_people sim' = people2 \<and> sim_rng sim' = g2"
      by (auto simp: test_num_apply_def ebind_def Let_def split: sum.splits)
    with tp keep nd show ?thesis by auto
  qed
  from probs have lp: "length test_probs = length people1" by simp
  from len lp f nd ap show ?thesis by blast
qed

theorem test_num_never_selects_diagnosed_witness:
  "select_tests (\<lambda>t p. (p, 0)) (\<lambda>probs n g. (case n of
                           Fin x \<Rightarrow> take (nat \<lfloor>x\<rfloor>)
                                     (filter (\<lambda>i. 0 < probs ! i) [0..<length probs])
                         | _ \<Rightarrow> [], g))
     \<lparr>tn_daily_tests = replicate 5 (Fin 2), tn_sympt_test = 100, tn_trace_test = 1, tn_sensitivity = 1, tn_test_delay = 0\<rparr> 0 (Fin 2)
     [\<lparr>symptomatic = True, infectious = False, diagnosed = False, known_contact = False, date_diagnosed = None, date_known_contact = None, dyn_cont_ppl = []\<rparr>,
      \<lparr>symptomatic = True, infectious = False, diagnosed = True, known_contact = False, date_diagnosed = None, date_known_contact = None, dyn_cont_ppl = []\<rparr>,
      \<lparr>symptomatic = False, infectious = False, diagnosed = False, known_contact = False, date_diagnosed = None, date_known_contact = None, dyn_cont_ppl = []\<rparr>] ()
    = ([\<lparr>symptomatic = True, infectious = False, diagnosed = False, known_contact = False, date_diagnosed = None, date_known_contact = None, dyn_cont_ppl = []\<rparr>,
      \<lparr>symptomatic = True, infectious = False, diagnosed = True, known_contact = False, date_diagnosed = None, date_known_contact = None, dyn_cont_ppl = []\<rparr>,
      \<lparr>symptomatic = False, infectious = False, diagnosed = False, known_contact = False, date_diagnosed = None, date_known_contact = None, dyn_cont_ppl = []\<rparr>], [100, 0, 1], 0, [0, 2], ())
   \<and> \<not> diagnosed ([\<lparr>symptomatic = True, infectious = False, diagnosed = False, known_contact = False, date_diagnosed = None, date_known_contact = None, dyn_cont_ppl = []\<rparr>,
      \<lparr>symptomatic = True, infectious = False, diagnosed = True, known_contact = False, date_diagnosed = None, date_known_contact = None, dyn_cont_ppl = []\<rparr>,
      \<lparr>symptomatic = False, infectious = False, diagnosed = False, known_contact = False, date_diagnosed = None, date_known_contact = None, dyn_cont_ppl = []\<rparr>] ! 0)
   \<and> diagnosed ([\<lparr>symptomatic = True, infectious = False, diagnosed = False, known_contact = False, date_diagnosed = None, date_known_contact = None, dyn_cont_ppl = []\<rparr>,
      \<lparr>symptomatic = True, infectious = False, diagnosed = True, known_contact = False, date_diagnosed = None, date_known_contact = None, dyn_cont_ppl = []\<rparr>,
      \<lparr>symptomatic = False, infectious = False, diagnosed = False, known_contact = False, date_diagnosed = None, date_known_contact = None, dyn_cont_ppl = []\<rparr>] ! 1)
   \<and> \<not> diagnosed ([\<lparr>symptomatic = True, infectious = False, diagnosed = False, known_contact = False, date_diagnosed = None, date_known_contact = None, dyn_cont_ppl = []\<rparr>,
      \<lparr>symptomatic = True, infectious = False, diagnosed = True, known_contact = False, date_diagnosed = None, date_known_contact = None, dyn_cont_ppl = []\<rparr>,
      \<lparr>symptomatic = False, infectious = False, diagnosed = False, known_contact = False, date_diagnosed = None, date_known_contact = None, dyn_cont_ppl = []\<rparr>] ! 2)"
proof -
  let ?cd = "(\<lambda>t p. (p, 0)) :: nat \<Rightarrow> person \<Rightarrow> person \<times> nat"
  let ?cw = "(\<lambda>probs n g. (case n of
                           Fin x \<Rightarrow> take (nat \<lfloor>x\<rfloor>)
                                     (filter (\<lambda>i. 0 < probs ! i) [0..<length probs])
                         | _ \<Rightarrow> [], g)) :: real list \<Rightarrow> pyfloat \<Rightarrow> unit \<Rightarrow> nat list \<times> unit"
  let ?tn = "\<lparr>tn_daily_tests = replicate 5 (Fin 2), tn_sympt_test = 100, tn_trace_test = 1, tn_sensitivity = 1, tn_test_delay = 0\<rparr>"
  let ?people = "[\<lparr>symptomatic = True, infectious = False, diagnosed = False, known_contact = False, date_diagnosed = None, date_known_contact = None, dyn_cont_ppl = []\<rparr>,
      \<lparr>symptomatic = True, infectious = False, diagnosed = True, known_contact = False, date_diagnosed = None, date_known_contact = None, dyn_cont_ppl = []\<rparr>,
      \<lparr>symptomatic = False, infectious = False, diagnosed = False, known_contact = False, date_diagnosed = None, date_known_contact = None, dyn_cont_ppl = []\<rparr>]"
  let ?sim = "\<lparr>sim_t = 0, sim_pars = Map.empty, sim_people = ?people,
               sim_results = \<lparr>new_tests = [], new_diagnoses = []\<rparr>, sim_rng = ()\<rparr>"
  have sampler: "weighted_sampler ?cw" by (rule first_eligible_sampler)
  have sel0: "select_tests ?cd ?cw ?tn 0 (Fin 2) ?people () = (?people, [100, 0, 1], 0, [0, 2], ())"
    by (simp add: select_tests_def test_prob_def)
  then have sel: "select_tests ?cd ?cw ?tn (sim_t ?sim) (Fin 2) (sim_people ?sim) (sim_rng ?sim)
                    = (?people, [100, 0, 1], 0, [0, 2], ())" by simp
  from test_num_never_selects_diagnosed [OF sampler sel]
  have "\<forall>i \<in> set [0, 2]. i < length ?people \<and> \<not> diagnosed (?people ! i)" by blast
  then have "\<not> diagnosed (?people ! 0) \<and> \<not> diagnosed (?people ! 2)" by simp
  moreover have "diagnosed (?people ! 1)" by simp
  ultimately show ?thesis using sel0 by blast
qed

text \<open>
  C7. A zero or non-finite count is meant to make \<open>apply\<close> a no-op ("If there are no
  tests today, abort early") that leaves the results accumulator as it was. The code at
  \<open>daily_tests = [inf]\<close>, day 0, \<open>new_tests = [0]\<close>: the line
  \<open>sim.results['new_tests'][t] += n_tests\<close> runs before the guard
  \<open>if not (n_tests and pl.isfinite(n_tests)): return\<close>, so \<open>apply\<close> returns with
  \<open>new_tests = [inf]\<close> and not with the state it was given.
\<close>

theorem test_num_nonfinite_count_changes_results:
  "test_num_apply (\<lambda>t p. (p, 0)) (\<lambda>probs n g. (case n of
                           Fin x \<Rightarrow> take (nat \<lfloor>x\<rfloor>)
                                     (filter (\<lambda>i. 0 < probs ! i) [0..<length probs])
                         | _ \<Rightarrow> [], g)) (\<lambda>t sens delay p g. (p\<lparr>date_diagnosed := Some (int t + delay)\<rparr>, g))
     \<lparr>tn_daily_tests = [PInf], tn_sympt_test = 100, tn_trace_test = 1, tn_sensitivity = 1, tn_test_delay = 0\<rparr>
     \<lparr>sim_t = 0, sim_pars = Map.empty, sim_people = [\<lparr>symptomatic = True, infectious = False, diagnosed = False, known_contact = False, date_diagnosed = None, date_known_contact = None, dyn_cont_ppl = []\<rparr>], sim_results = \<lparr>new_tests = [Fin 0], new_diagnoses = [Fin 0]\<rparr>, sim_rng = ()\<rparr>
    = Inr \<lparr>sim_t = 0, sim_pars = Map.empty, sim_people = [\<lparr>symptomatic = True, infectious = False, diagnosed = False, known_contact = False, date_diagnosed = None, date_known_contact = None, dyn_cont_ppl = []\<rparr>], sim_results = \<lparr>new_tests = [PInf], new_diagnoses = [Fin 0]\<rparr>, sim_rng = ()\<rparr>
   \<and> test_num_apply (\<lambda>t p. (p, 0)) (\<lambda>probs n g. (case n of
                           Fin x \<Rightarrow> take (nat \<lfloor>x\<rfloor>)
                                     (filter (\<lambda>i. 0 < probs ! i) [0..<length probs])
                         | _ \<Rightarrow> [], g)) (\<lambda>t sens delay p g. (p\<lparr>date_diagnosed := Some (int t + delay)\<rparr>, g))
     \<lparr>tn_daily_tests = [PInf], tn_sympt_test = 100, tn_trace_test = 1, tn_sensitivity = 1, tn_test_delay = 0\<rparr>
     \<lparr>sim_t = 0, sim_pars = Map.empty, sim_people = [\<lparr>symptomatic = True, infectious = False, diagnosed = False, known_contact = False, date_diagnosed = None, date_known_contact = None, dyn_cont_ppl = []\<rparr>], sim_results = \<lparr>new_tests = [Fin 0], new_diagnoses = [Fin 0]\<rparr>, sim_rng = ()\<rparr>
    \<noteq> Inr \<lparr>sim_t = 0, sim_pars = Map.empty, sim_people = [\<lparr>symptomatic = True, infectious = False, diagnosed = False, known_contact = False, date_diagnosed = None, date_known_contact = None, dyn_cont_ppl = []\<rparr>], sim_results = \<lparr>new_tests = [Fin 0], new_diagnoses = [Fin 0]\<rparr>, sim_rng = ()\<rparr>"
  by (simp add: test_num_apply_def results_add_def ebind_def)

text \<open>
  What the code does on a day whose requested count is zero or not finite (the day
  indexing the \<open>new_tests\<close> array): it raises nothing, tests no agent and draws nothing;
  the people, the random source, the parameters and \<open>new_diagnoses\<close> are unchanged, and
  the count has been added to \<open>new_tests[t]\<close>. For a zero count that leaves the whole
  simulation state unchanged; for a non-finite one it does not.
\<close>

theorem test_num_quiet_day:
  assumes "sim_t sim < length (tn_daily_tests tn)"
    and "sim_t sim < length (new_tests (sim_results sim))"
    and "\<not> (pf_truthy (tn_daily_tests tn ! sim_t sim) \<and> pf_isfinite (tn_daily_tests tn ! sim_t sim))"
  shows "test_num_apply check_diagnosed choose_weighted person_test tn sim
           = Inr (sim\<lparr>sim_results := (sim_results sim)
                    \<lparr>new_tests := (new_tests (sim_results sim))
                        [sim_t sim := pf_add (new_tests (sim_results sim) ! sim_t sim)
                                             (tn_daily_tests tn ! sim_t sim)]\<rparr>\<rparr>)
       \<and> (tn_daily_tests tn ! sim_t sim = Fin 0 \<longrightarrow>
            test_num_apply check_diagnosed choose_weighted person_test tn sim = Inr sim)"
proof -
  have a: "test_num_apply check_diagnosed choose_weighted person_test tn sim
           = Inr (sim\<lparr>sim_results := (sim_results sim)
                    \<lparr>new_tests := (new_tests (sim_results sim))
                        [sim_t sim := pf_add (new_tests (sim_results sim) ! sim_t sim)
                                             (tn_daily_tests tn ! sim_t sim)]\<rparr>\<rparr>)"
    using assms by (simp add: test_num_apply_def results_add_def ebind_def Let_def)
  have "test_num_apply check_diagnosed choose_weighted person_test tn sim = Inr sim"
    if "tn_daily_tests tn ! sim_t sim = Fin 0"
    using a that by (simp add: pf_add_zero_right)
  with a show ?thesis by blast
qed

theorem test_num_quiet_day_witness:
  "test_num_apply (\<lambda>t p. (p, 0)) (\<lambda>probs n g. (case n of
                           Fin x \<Rightarrow> take (nat \<lfloor>x\<rfloor>)
                                     (filter (\<lambda>i. 0 < probs ! i) [0..<length probs])
                         | _ \<Rightarrow> [], g)) (\<lambda>t sens delay p g. (p\<lparr>date_diagnosed := Some (int t + delay)\<rparr>, g))
     \<lparr>tn_daily_tests = [Fin 0], tn_sympt_test = 100, tn_trace_test = 1, tn_sensitivity = 1, tn_test_delay = 0\<rparr>
     \<lparr>sim_t = 0, sim_pars = Map.empty, sim_people = [\<lparr>symptomatic = True, infectious = False, diagnosed = False, known_contact = False, date_diagnosed = None, date_known_contact = None, dyn_cont_ppl = []\<rparr>], sim_results = \<lparr>new_tests = [Fin 0], new_diagnoses = [Fin 0]\<rparr>, sim_rng = ()\<rparr>
    = Inr \<lparr>sim_t = 0, sim_pars = Map.empty, sim_people = [\<lparr>symptomatic = True, infectious = False, diagnosed = False, known_contact = False, date_diagnosed = None, date_known_contact = None, dyn_cont_ppl = []\<rparr>], sim_results = \<lparr>new_tests = [Fin 0], new_diagnoses = [Fin 0]\<rparr>, sim_rng = ()\<rparr>
   \<and> test_num_apply (\<lambda>t p. (p, 0)) (\<lambda>probs n g. (case n of
                           Fin x \<Rightarrow> take (nat \<lfloor>x\<rfloor>)
                                     (filter (\<lambda>i. 0 < probs ! i) [0..<length probs])
                         | _ \<Rightarrow> [], g)) (\<lambda>t sens delay p g. (p\<lparr>date_diagnosed := Some (int t + delay)\<rparr>, g))
     \<lparr>tn_daily_tests = [NaN], tn_sympt_test = 100, tn_trace_test = 1, tn_sensitivity = 1, tn_test_delay = 0\<rparr>
     \<lparr>sim_t = 0, sim_pars = Map.empty, sim_people = [\<lparr>symptomatic = True, infectious = False, diagnosed = False, known_contact = False, date_diagnosed = None, date_known_contact = None, dyn_cont_ppl = []\<rparr>], sim_results = \<lparr>new_tests = [Fin 0], new_diagnoses = [Fin 0]\<rparr>, sim_rng = ()\<rparr>
    = Inr \<lparr>sim_t = 0, sim_pars = Map.empty, sim_people = [\<lparr>symptomatic = True, infectious = False, diagnosed = False, known_contact = False, date_diagnosed = None, date_known_contact = None, dyn_cont_ppl = []\<rparr>], sim_results = \<lparr>new_tests = [NaN], new_diagnoses = [Fin 0]\<rparr>, sim_rng = ()\<rparr>"
proof -
  let ?cd = "(\<lambda>t p. (p, 0)) :: nat \<Rightarrow> person \<Rightarrow> person \<times> nat"
  let ?cw = "(\<lambda>probs n g. (case n of
                           Fin x \<Rightarrow> take (nat \<lfloor>x\<rfloor>)
                                     (filter (\<lambda>i. 0 < probs ! i) [0..<length probs])
                         | _ \<Rightarrow> [], g)) :: real list \<Rightarrow> pyfloat \<Rightarrow> unit \<Rightarrow> nat list \<times> unit"
  let ?pt = "(\<lambda>t sens delay p g. (p\<lparr>date_diagnosed := Some (int t + delay)\<rparr>, g)) :: nat \<Rightarrow> real \<Rightarrow> int \<Rightarrow> person \<Rightarrow> unit \<Rightarrow> person \<times> unit"
  let ?sim = "\<lparr>sim_t = 0, sim_pars = Map.empty, sim_people = [\<lparr>symptomatic = True, infectious = False, diagnosed = False, known_contact = False, date_diagnosed = None, date_known_contact = None, dyn_cont_ppl = []\<rparr>], sim_results = \<lparr>new_tests = [Fin 0], new_diagnoses = [Fin 0]\<rparr>, sim_rng = ()\<rparr>"
  from test_num_quiet_day [of ?sim "\<lparr>tn_daily_tests = [Fin 0], tn_sympt_test = 100, tn_trace_test = 1, tn_sensitivity = 1, tn_test_delay = 0\<rparr>" ?cd ?cw ?pt]
  have z: "test_num_apply ?cd ?cw ?pt \<lparr>tn_daily_tests = [Fin 0], tn_sympt_test = 100, tn_trace_test = 1, tn_sensitivity = 1, tn_test_delay = 0\<rparr> ?sim = Inr ?sim" by simp
  from test_num_quiet_day [of ?sim "\<lparr>tn_daily_tests = [NaN], tn_sympt_test = 100, tn_trace_test = 1, tn_sensitivity = 1, tn_test_delay = 0\<rparr>" ?cd ?cw ?pt]
  have n: "test_num_apply ?cd ?cw ?pt \<lparr>tn_daily_tests = [NaN], tn_sympt_test = 100, tn_trace_test = 1, tn_sensitivity = 1, tn_test_delay = 0\<rparr> ?sim = Inr \<lparr>sim_t = 0, sim_pars = Map.empty, sim_people = [\<lparr>symptomatic = True, infectious = False, diagnosed = False, known_contact = False, date_diagnosed = None, date_known_contact = None, dyn_cont_ppl = []\<rparr>], sim_results = \<lparr>new_tests = [NaN], new_diagnoses = [Fin 0]\<rparr>, sim_rng = ()\<rparr>" by simp
  from z n show ?thesis by blast
qed

section \<open>Properties of contact tracing\<close>

lemma notify_date:
  "date_known_contact (notify t d p)
     = Some (case date_known_contact p of None \<Rightarrow> int t + d | Some e \<Rightarrow> min e (int t + d))"
  by (simp add: notify_def split: option.splits)

lemma notify_not_later:
  "date_known_contact p = Some e \<Longrightarrow>
     \<exists>e'. date_known_contact (notify t d p) = Some e' \<and> e' \<le> e"
  by (simp add: notify_def)

lemma notify_contacts_other:
  "notify_contacts t items people = Inr people' \<Longrightarrow>
     length people' = length people \<and> (\<forall>j. j \<notin> fst ` set items \<longrightarrow> people' ! j = people ! j)"
proof (induction items arbitrary: people)
  case Nil
  then show ?case by simp
next
  case (Cons item rest)
  obtain c d where item: "item = (c, d)" by (cases item)
  from Cons.prems item have c: "c < length people"
    and r: "notify_contacts t rest (people[c := notify t d (people ! c)]) = Inr people'"
    by (auto split: if_splits)
  from Cons.IH [OF r] item show ?case by auto
qed

lemma notify_contacts_each:
  "notify_contacts t items people = Inr people' \<Longrightarrow> distinct (map fst items) \<Longrightarrow>
     (c, d) \<in> set items \<Longrightarrow>
     date_known_contact (people' ! c)
       = Some (case date_known_contact (people ! c) of
                 None \<Rightarrow> int t + d | Some e \<Rightarrow> min e (int t + d))"
proof (induction items arbitrary: people)
  case Nil
  then show ?case by simp
next
  case (Cons item rest)
  obtain c0 d0 where item: "item = (c0, d0)" by (cases item)
  let ?p1 = "people[c0 := notify t d0 (people ! c0)]"
  from Cons.prems(1) item have c0: "c0 < length people"
    and r: "notify_contacts t rest ?p1 = Inr people'"
    by (auto split: if_splits)
  from Cons.prems(2) item have nin: "c0 \<notin> fst ` set rest" and dr: "distinct (map fst rest)"
    by auto
  show ?case
  proof (cases "(c, d) = (c0, d0)")
    case True
    from notify_contacts_other [OF r] nin have "people' ! c0 = ?p1 ! c0" by simp
    with c0 True show ?thesis by (auto simp: notify_date)
  next
    case False
    with Cons.prems(3) item have m: "(c, d) \<in> set rest" by auto
    with nin have "c \<noteq> c0" by force
    with Cons.IH [OF r dr m] show ?thesis by simp
  qed
qed

lemma notify_contacts_not_later:
  "notify_contacts t items people = Inr people' \<Longrightarrow>
     date_known_contact (people ! j) = Some e \<Longrightarrow>
     \<exists>e'. date_known_contact (people' ! j) = Some e' \<and> e' \<le> e"
proof (induction items arbitrary: people e)
  case Nil
  then show ?case by simp
next
  case (Cons item rest)
  obtain c d where item: "item = (c, d)" by (cases item)
  let ?p1 = "people[c := notify t d (people ! c)]"
  from Cons.prems(1) item have c: "c < length people"
    and r: "notify_contacts t rest ?p1 = Inr people'"
    by (auto split: if_splits)
  obtain e1 where e1: "date_known_contact (?p1 ! j) = Some e1" "e1 \<le> e"
  proof (cases "j = c")
    case True
    from notify_not_later [OF Cons.prems(2), of t d] True c show ?thesis
      by (auto intro: that)
  next
    case False
    with Cons.prems(2) show ?thesis by (auto intro: that)
  qed
  from Cons.IH [OF r e1(1)] e1(2) show ?case by force
qed

lemma trace_person_not_later:
  assumes "trace_person tdc tsc ct t i people g = Inr (people', g')"
  shows "length people' = length people
       \<and> (\<forall>j e. date_known_contact (people ! j) = Some e \<longrightarrow>
             (\<exists>e'. date_known_contact (people' ! j) = Some e' \<and> e' \<le> e))"
proof (cases "infectious (people ! i)")
  case False
  with assms show ?thesis by (simp add: trace_person_def)
next
  case True
  obtain dyn g1 where d: "tdc (ct_trace_probs ct) (ct_trace_time ct) (people ! i) g = (dyn, g1)"
    by (cases "tdc (ct_trace_probs ct) (ct_trace_time ct) (people ! i) g")
  let ?person1 = "(people ! i)\<lparr>dyn_cont_ppl := dyn\<rparr>"
  let ?people1 = "people[i := ?person1]"
  have same: "date_known_contact (?people1 ! j) = date_known_contact (people ! j)" for j
    by (cases "j = i"; cases "i < length people") (auto simp: list_update_beyond)
  show ?thesis
  proof (cases "date_diagnosed ?person1 = Some (int t - 1)")
    case False
    with assms True d have "people' = ?people1" by (auto simp: trace_person_def)
    with same show ?thesis by simp
  next
    case diag: True
    obtain static g2 where s: "tsc (ct_trace_probs ct) (ct_trace_time ct) ?person1 g1 = (static, g2)"
      by (cases "tsc (ct_trace_probs ct) (ct_trace_time ct) ?person1 g1")
    from assms True d diag s have
      n: "notify_contacts t (dict_update static dyn) ?people1 = Inr people'"
      by (auto simp: trace_person_def ebind_def split: sum.splits)
    from notify_contacts_other [OF n] have "length people' = length people" by simp
    moreover have "\<exists>e'. date_known_contact (people' ! j) = Some e' \<and> e' \<le> e"
      if "date_known_contact (people ! j) = Some e" for j e
    proof -
      from that same have "date_known_contact (?people1 ! j) = Some e" by simp
      from notify_contacts_not_later [OF n this] show ?thesis .
    qed
    ultimately show ?thesis by blast
  qed
qed

lemma trace_loop_not_later:
  "trace_loop tdc tsc ct t is people g = Inr (people', g') \<Longrightarrow>
     length people' = length people
       \<and> (\<forall>j e. date_known_contact (people ! j) = Some e \<longrightarrow>
             (\<exists>e'. date_known_contact (people' ! j) = Some e' \<and> e' \<le> e))"
proof (induction "is" arbitrary: people g)
  case Nil
  then show ?case by simp
next
  case (Cons i rest)
  from Cons.prems obtain people1 g1 where
    p: "trace_person tdc tsc ct t i people g = Inr (people1, g1)"
    and r: "trace_loop tdc tsc ct t rest people1 g1 = Inr (people', g')"
    by (auto simp: ebind_def split: sum.splits)
  note a = trace_person_not_later [OF p] and b = Cons.IH [OF r]
  have "\<exists>e'. date_known_contact (people' ! j) = Some e' \<and> e' \<le> e"
    if "date_known_contact (people ! j) = Some e" for j e
  proof -
    from a that obtain e1 where e1: "date_known_contact (people1 ! j) = Some e1" "e1 \<le> e"
      by blast
    from b e1(1) obtain e2 where "date_known_contact (people' ! j) = Some e2" "e2 \<le> e1"
      by blast
    with e1(2) show ?thesis by auto
  qed
  with a b show ?case by auto
qed

lemma map_of_dict_update:
  "distinct (map fst e) \<Longrightarrow> map_of (dict_update d e) = map_of d ++ map_of e"
proof (induction e arbitrary: d)
  case Nil
  then show ?case by (simp add: dict_update_def)
next
  case (Cons item e)
  obtain k v where item: "item = (k, v)" by (cases item)
  from Cons.prems item have nin: "k \<notin> fst ` set e" and de: "distinct (map fst e)" by auto
  from nin have none: "map_of e k = None" by (simp add: map_of_eq_None_iff)
  have "dict_update d (item # e) = dict_update (AList.update k v d) e"
    by (simp add: dict_update_def item)
  then have "map_of (dict_update d (item # e)) = map_of (AList.update k v d) ++ map_of e"
    using Cons.IH [OF de, of "AList.update k v d"] by (simp only:)
  also have "\<dots> = (map_of d)(k \<mapsto> v) ++ map_of e"
    by (simp only: update_conv')
  also have "\<dots> = map_of d ++ map_of (item # e)"
    using none item by (auto simp: map_add_def fun_eq_iff split: option.splits)
  finally show ?case .
qed

lemma distinct_dict_update:
  "distinct (map fst d) \<Longrightarrow> distinct (map fst (dict_update d e))"
proof (induction e arbitrary: d)
  case Nil
  then show ?case by (simp add: dict_update_def)
next
  case (Cons item e)
  obtain k v where item: "item = (k, v)" by (cases item)
  have "dict_update d (item # e) = dict_update (AList.update k v d) e"
    by (simp add: dict_update_def item)
  with Cons.IH [of "AList.update k v d"] Cons.prems show ?case
    by (simp add: distinct_update)
qed

lemma earliest_Nil: "earliest t x [] = x"
  by (simp add: earliest_def)

lemma earliest_Cons: "earliest t x (d # ds) = earliest t (earliest t x [d]) ds"
  by (simp add: earliest_def)

lemma earliest_one:
  "earliest t x [d] = Some (case x of None \<Rightarrow> int t + d | Some e \<Rightarrow> min e (int t + d))"
  by (simp add: earliest_def)

lemma notify_contacts_exact:
  assumes "notify_contacts t items people = Inr people'" and "distinct (map fst items)"
  shows "date_known_contact (people' ! j)
           = (case map_of items j of
                None \<Rightarrow> date_known_contact (people ! j)
              | Some d \<Rightarrow> earliest t (date_known_contact (people ! j)) [d])"
proof (cases "map_of items j")
  case None
  then have "j \<notin> fst ` set items" by (simp add: map_of_eq_None_iff)
  with notify_contacts_other [OF assms(1)] None show ?thesis by simp
next
  case (Some d)
  then have "(j, d) \<in> set items" by (rule map_of_SomeD)
  from notify_contacts_each [OF assms this] Some show ?thesis by (simp add: earliest_one)
qed

lemma trace_person_exact:
  assumes tp: "trace_person tdc tsc ct t i people g = Inr (people', g')"
    and dicts: "\<forall>probs times p g. distinct (map fst (fst (tdc probs times p g)))
                  \<and> distinct (map fst (fst (tsc probs times p g)))"
  shows "date_known_contact (people' ! j)
           = (case person_notice tdc tsc ct t (people ! i) g j of
                None \<Rightarrow> date_known_contact (people ! j)
              | Some d \<Rightarrow> earliest t (date_known_contact (people ! j)) [d])"
proof (cases "infectious (people ! i)")
  case False
  with tp show ?thesis by (simp add: trace_person_def person_notice_def)
next
  case True
  obtain dyn g1 where d: "tdc (ct_trace_probs ct) (ct_trace_time ct) (people ! i) g = (dyn, g1)"
    by (cases "tdc (ct_trace_probs ct) (ct_trace_time ct) (people ! i) g")
  let ?person1 = "(people ! i)\<lparr>dyn_cont_ppl := dyn\<rparr>"
  let ?people1 = "people[i := ?person1]"
  have same: "date_known_contact (?people1 ! j) = date_known_contact (people ! j)"
    by (cases "j = i"; cases "i < length people") (auto simp: list_update_beyond)
  show ?thesis
  proof (cases "date_diagnosed ?person1 = Some (int t - 1)")
    case False
    with tp True d have "people' = ?people1" by (auto simp: trace_person_def)
    moreover from False True d have "person_notice tdc tsc ct t (people ! i) g = Map.empty"
      by (simp add: person_notice_def)
    ultimately show ?thesis using same by simp
  next
    case diag: True
    obtain static g2 where s: "tsc (ct_trace_probs ct) (ct_trace_time ct) ?person1 g1 = (static, g2)"
      by (cases "tsc (ct_trace_probs ct) (ct_trace_time ct) ?person1 g1")
    from dicts d have dd: "distinct (map fst dyn)" by (metis fst_conv)
    from dicts s have ds: "distinct (map fst static)" by (metis fst_conv)
    from tp True d diag s have
      n: "notify_contacts t (dict_update static dyn) ?people1 = Inr people'"
      by (auto simp: trace_person_def ebind_def split: sum.splits)
    have pn: "person_notice tdc tsc ct t (people ! i) g = map_of static ++ map_of dyn"
      using True d diag s by (simp add: person_notice_def)
    from notify_contacts_exact [OF n distinct_dict_update [OF ds], of j]
    have "date_known_contact (people' ! j)
           = (case (map_of static ++ map_of dyn) j of
                None \<Rightarrow> date_known_contact (?people1 ! j)
              | Some d \<Rightarrow> earliest t (date_known_contact (?people1 ! j)) [d])"
      by (simp only: map_of_dict_update [OF dd])
    then show ?thesis unfolding pn same .
  qed
qed

lemma trace_loop_exact:
  "trace_loop tdc tsc ct t is people g = Inr (people', g') \<Longrightarrow>
     \<forall>probs times p g. distinct (map fst (fst (tdc probs times p g)))
                  \<and> distinct (map fst (fst (tsc probs times p g))) \<Longrightarrow>
     date_known_contact (people' ! j)
       = earliest t (date_known_contact (people ! j))
           (List.map_filter (\<lambda>m. m j) (trace_notices tdc tsc ct t is people g))"
proof (induction "is" arbitrary: people g)
  case Nil
  then show ?case by (simp add: earliest_Nil List.map_filter_simps)
next
  case (Cons i rest)
  from Cons.prems(1) obtain people1 g1 where
    p: "trace_person tdc tsc ct t i people g = Inr (people1, g1)"
    and r: "trace_loop tdc tsc ct t rest people1 g1 = Inr (people', g')"
    by (auto simp: ebind_def split: sum.splits)
  let ?m = "person_notice tdc tsc ct t (people ! i) g"
  from trace_person_exact [OF p Cons.prems(2), of j] have
    one: "date_known_contact (people1 ! j)
           = (case ?m j of
                None \<Rightarrow> date_known_contact (people ! j)
              | Some d \<Rightarrow> earliest t (date_known_contact (people ! j)) [d])" .
  from Cons.IH [OF r Cons.prems(2)] have
    rest: "date_known_contact (people' ! j)
       = earliest t (date_known_contact (people1 ! j))
           (List.map_filter (\<lambda>m. m j) (trace_notices tdc tsc ct t rest people1 g1))" .
  have tn: "trace_notices tdc tsc ct t (i # rest) people g
              = ?m # trace_notices tdc tsc ct t rest people1 g1"
    using p by simp
  show ?case
  proof (cases "?m j")
    case None
    with one rest tn show ?thesis by (simp add: List.map_filter_simps)
  next
    case (Some d)
    let ?ds = "List.map_filter (\<lambda>m. m j) (trace_notices tdc tsc ct t rest people1 g1)"
    from Some tn have "List.map_filter (\<lambda>m. m j) (trace_notices tdc tsc ct t (i # rest) people g)
                         = d # ?ds"
      by (simp add: List.map_filter_simps)
    moreover from Some one have "date_known_contact (people1 ! j)
                                   = earliest t (date_known_contact (people ! j)) [d]" by simp
    moreover note rest earliest_Cons [of t "date_known_contact (people ! j)" d ?ds]
    ultimately show ?thesis by (simp only:)
  qed
qed

text \<open>
  C3. Over a whole \<open>apply\<close> on day \<open>t\<close>, every agent ends with the date obtained from its
  existing \<open>date_known_contact\<close> by the notifications it receives, in the order of the
  loop, from the persons that trace (infectious, diagnosed on day \<open>t - 1\<close>): each such
  person notifies its static contacts overlaid by its dynamic ones, with the delay assigned
  there. A notification with delay \<open>d\<close> gives \<open>t + d\<close> to an agent without a date and the
  minimum of the existing date and \<open>t + d\<close> to any other; an agent that nobody contacts
  keeps what it had, and before \<open>start_day\<close> nothing changes. Consequently no existing
  date is ever increased or unset. The same rule holds of each single notification
  (\<open>notify\<close>) and of the notifications of one traced person (\<open>notify_contacts\<close>). The
  returned static and dynamic contacts are dictionaries: no agent occurs twice in one.
\<close>

theorem contact_tracing_earliest_notification:
  "(contact_tracing_apply trace_dynamic_contacts trace_static_contacts ct sim = Inr sim'
      \<and> (\<forall>probs times p g.
            distinct (map fst (fst (trace_dynamic_contacts probs times p g)))
            \<and> distinct (map fst (fst (trace_static_contacts probs times p g)))) \<longrightarrow>
        (\<forall>j. date_known_contact (sim_people sim' ! j)
               = earliest (sim_t sim) (date_known_contact (sim_people sim ! j))
                   (if int (sim_t sim) < ct_start_day ct then []
                    else List.map_filter (\<lambda>m. m j)
                           (trace_notices trace_dynamic_contacts trace_static_contacts ct (sim_t sim)
                              [0..<length (sim_people sim)] (sim_people sim) (sim_rng sim)))))
   \<and> earliest t existing [] = existing
   \<and> earliest t existing [d]
        = Some (case existing of None \<Rightarrow> int t + d | Some e \<Rightarrow> min e (int t + d))
   \<and> earliest t existing (d # ds) = earliest t (earliest t existing [d]) ds
   \<and> date_known_contact (notify t d p)
        = Some (case date_known_contact p of None \<Rightarrow> int t + d | Some e \<Rightarrow> min e (int t + d))
   \<and> (notify_contacts t items people = Inr people' \<and> distinct (map fst items) \<longrightarrow>
        (\<forall>(c, d) \<in> set items.
           date_known_contact (people' ! c)
             = Some (case date_known_contact (people ! c) of
                       None \<Rightarrow> int t + d | Some e \<Rightarrow> min e (int t + d))))
   \<and> (contact_tracing_apply trace_dynamic_contacts trace_static_contacts ct sim = Inr sim' \<longrightarrow>
        length (sim_people sim') = length (sim_people sim)
        \<and> (\<forall>j e. date_known_contact (sim_people sim ! j) = Some e \<longrightarrow>
              (\<exists>e'. date_known_contact (sim_people sim' ! j) = Some e' \<and> e' \<le> e)))"
proof (intro conjI impI)
  assume a: "contact_tracing_apply trace_dynamic_contacts trace_static_contacts ct sim = Inr sim'
      \<and> (\<forall>probs times p g.
            distinct (map fst (fst (trace_dynamic_contacts probs times p g)))
            \<and> distinct (map fst (fst (trace_static_contacts probs times p g))))"
  show "\<forall>j. date_known_contact (sim_people sim' ! j)
               = earliest (sim_t sim) (date_known_contact (sim_people sim ! j))
                   (if int (sim_t sim) < ct_start_day ct then []
                    else List.map_filter (\<lambda>m. m j)
                           (trace_notices trace_dynamic_contacts trace_static_contacts ct (sim_t sim)
                              [0..<length (sim_people sim)] (sim_people sim) (sim_rng sim)))"
  proof (cases "int (sim_t sim) < ct_start_day ct")
    case True
    with a have "sim' = sim" by (simp add: contact_tracing_apply_def)
    with True show ?thesis by (simp add: earliest_Nil)
  next
    case False
    with a obtain people1 g1 where
      l: "trace_loop trace_dynamic_contacts trace_static_contacts ct (sim_t sim)
            [0..<length (sim_people sim)] (sim_people sim) (sim_rng sim) = Inr (people1, g1)"
      and s: "sim' = sim\<lparr>sim_people := people1, sim_rng := g1\<rparr>"
      by (auto simp: contact_tracing_apply_def ebind_def Let_def split: sum.splits)
    from a have dicts: "\<forall>probs times p g.
            distinct (map fst (fst (trace_dynamic_contacts probs times p g)))
            \<and> distinct (map fst (fst (trace_static_contacts probs times p g)))" by blast
    from trace_loop_exact [OF l dicts] s False show ?thesis by simp
  qed
next
  show "earliest t existing [] = existing" by (rule earliest_Nil)
next
  show "earliest t existing [d]
        = Some (case existing of None \<Rightarrow> int t + d | Some e \<Rightarrow> min e (int t + d))"
    by (rule earliest_one)
next
  show "earliest t existing (d # ds) = earliest t (earliest t existing [d]) ds"
    by (rule earliest_Cons)
next
  show "date_known_contact (notify t d p)
     = Some (case date_known_contact p of None \<Rightarrow> int t + d | Some e \<Rightarrow> min e (int t + d))"
    by (rule notify_date)
next
  assume "notify_contacts t items people = Inr people' \<and> distinct (map fst items)"
  then show "\<forall>(c, d) \<in> set items.
           date_known_contact (people' ! c)
             = Some (case date_known_contact (people ! c) of
                       None \<Rightarrow> int t + d | Some e \<Rightarrow> min e (int t + d))"
    using notify_contacts_each by blast
next
  assume a: "contact_tracing_apply trace_dynamic_contacts trace_static_contacts ct sim = Inr sim'"
  have "length (sim_people sim') = length (sim_people sim)
        \<and> (\<forall>j e. date_known_contact (sim_people sim ! j) = Some e \<longrightarrow>
              (\<exists>e'. date_known_contact (sim_people sim' ! j) = Some e' \<and> e' \<le> e))"
  proof (cases "int (sim_t sim) < ct_start_day ct")
    case True
    with a have "sim' = sim" by (simp add: contact_tracing_apply_def)
    then show ?thesis by simp
  next
    case False
    with a obtain people1 g1 where
      l: "trace_loop trace_dynamic_contacts trace_static_contacts ct (sim_t sim)
            [0..<length (sim_people sim)] (sim_people sim) (sim_rng sim) = Inr (people1, g1)"
      and s: "sim' = sim\<lparr>sim_people := people1, sim_rng := g1\<rparr>"
      by (auto simp: contact_tracing_apply_def ebind_def Let_def split: sum.splits)
    from trace_loop_not_later [OF l] s show ?thesis by simp
  qed
  then show "length (sim_people sim') = length (sim_people sim)"
    and "\<forall>j e. date_known_contact (sim_people sim ! j) = Some e \<longrightarrow>
              (\<exists>e'. date_known_contact (sim_people sim' ! j) = Some e' \<and> e' \<le> e)"
    by blast+
qed

theorem contact_tracing_earliest_notification_witness:
  "contact_tracing_apply (\<lambda>probs times p g. ([(2, 10), (4, 3), (5, 1)], g))
        (\<lambda>probs times p g. ([(1, 2), (3, 1), (4, 5), (5, 9)], g))
        \<lparr>ct_trace_probs = Map.empty, ct_trace_time = Map.empty, ct_start_day = 0, ct_contact_reduction = None\<rparr>
        \<lparr>sim_t = 10, sim_pars = Map.empty, sim_people = [\<lparr>symptomatic = False, infectious = True, diagnosed = True, known_contact = False, date_diagnosed = Some 9, date_known_contact = None, dyn_cont_ppl = []\<rparr>,
       \<lparr>symptomatic = False, infectious = False, diagnosed = False, known_contact = False, date_diagnosed = None, date_known_contact = Some 15, dyn_cont_ppl = []\<rparr>,
       \<lparr>symptomatic = False, infectious = False, diagnosed = False, known_contact = False, date_diagnosed = None, date_known_contact = Some 10, dyn_cont_ppl = []\<rparr>,
       \<lparr>symptomatic = False, infectious = False, diagnosed = False, known_contact = False, date_diagnosed = None, date_known_contact = None, dyn_cont_ppl = []\<rparr>,
       \<lparr>symptomatic = False, infectious = False, diagnosed = False, known_contact = False, date_diagnosed = None, date_known_contact = None, dyn_cont_ppl = []\<rparr>,
       \<lparr>symptomatic = False, infectious = False, diagnosed = False, known_contact = False, date_diagnosed = None, date_known_contact = Some 30, dyn_cont_ppl = []\<rparr>], sim_results = \<lparr>new_tests = [], new_diagnoses = []\<rparr>, sim_rng = ()\<rparr>
      = Inr \<lparr>sim_t = 10, sim_pars = Map.empty, sim_people = [\<lparr>symptomatic = False, infectious = True, diagnosed = True, known_contact = False, date_diagnosed = Some 9, date_known_contact = None, dyn_cont_ppl = [(2, 10), (4, 3), (5, 1)]\<rparr>,
       \<lparr>symptomatic = False, infectious = False, diagnosed = False, known_contact = False, date_diagnosed = None, date_known_contact = Some 12, dyn_cont_ppl = []\<rparr>,
       \<lparr>symptomatic = False, infectious = False, diagnosed = False, known_contact = False, date_diagnosed = None, date_known_contact = Some 10, dyn_cont_ppl = []\<rparr>,
       \<lparr>symptomatic = False, infectious = False, diagnosed = False, known_contact = False, date_diagnosed = None, date_known_contact = Some 11, dyn_cont_ppl = []\<rparr>,
       \<lparr>symptomatic = False, infectious = False, diagnosed = False, known_contact = False, date_diagnosed = None, date_known_contact = Some 13, dyn_cont_ppl = []\<rparr>,
       \<lparr>symptomatic = False, infectious = False, diagnosed = False, known_contact = False, date_diagnosed = None, date_known_contact = Some 11, dyn_cont_ppl = []\<rparr>], sim_results = \<lparr>new_tests = [], new_diagnoses = []\<rparr>, sim_rng = ()\<rparr>
   \<and> earliest 10 (Some 30)
        (List.map_filter (\<lambda>m. m 5)
           (trace_notices (\<lambda>probs times p g. ([(2, 10), (4, 3), (5, 1)], g))
              (\<lambda>probs times p g. ([(1, 2), (3, 1), (4, 5), (5, 9)], g))
              \<lparr>ct_trace_probs = Map.empty, ct_trace_time = Map.empty, ct_start_day = 0, ct_contact_reduction = None\<rparr> 10 [0, 1, 2, 3, 4, 5]
              [\<lparr>symptomatic = False, infectious = True, diagnosed = True, known_contact = False, date_diagnosed = Some 9, date_known_contact = None, dyn_cont_ppl = []\<rparr>,
       \<lparr>symptomatic = False, infectious = False, diagnosed = False, known_contact = False, date_diagnosed = None, date_known_contact = Some 15, dyn_cont_ppl = []\<rparr>,
       \<lparr>symptomatic = False, infectious = False, diagnosed = False, known_contact = False, date_diagnosed = None, date_known_contact = Some 10, dyn_cont_ppl = []\<rparr>,
       \<lparr>symptomatic = False, infectious = False, diagnosed = False, known_contact = False, date_diagnosed = None, date_known_contact = None, dyn_cont_ppl = []\<rparr>,
       \<lparr>symptomatic = False, infectious = False, diagnosed = False, known_contact = False, date_diagnosed = None, date_known_contact = None, dyn_cont_ppl = []\<rparr>,
       \<lparr>symptomatic = False, infectious = False, diagnosed = False, known_contact = False, date_diagnosed = None, date_known_contact = Some 30, dyn_cont_ppl = []\<rparr>] ()))
      = Some 11
   \<and> date_known_contact (notify 10 2 \<lparr>symptomatic = False, infectious = False, diagnosed = False, known_contact = False, date_diagnosed = None, date_known_contact = Some 15, dyn_cont_ppl = []\<rparr>) = Some 12
   \<and> date_known_contact (notify 10 10 \<lparr>symptomatic = False, infectious = False, diagnosed = False, known_contact = False, date_diagnosed = None, date_known_contact = Some 10, dyn_cont_ppl = []\<rparr>) = Some 10"
proof -
  let ?tdc = "(\<lambda>probs times p g. ([(2, 10), (4, 3), (5, 1)], g)) ::
    (string \<Rightarrow> real option) \<Rightarrow> (string \<Rightarrow> int option) \<Rightarrow> person \<Rightarrow> unit \<Rightarrow> (nat \<times> int) list \<times> unit"
  let ?tsc = "(\<lambda>probs times p g. ([(1, 2), (3, 1), (4, 5), (5, 9)], g)) ::
    (string \<Rightarrow> real option) \<Rightarrow> (string \<Rightarrow> int option) \<Rightarrow> person \<Rightarrow> unit \<Rightarrow> (nat \<times> int) list \<times> unit"
  let ?ct = "\<lparr>ct_trace_probs = Map.empty, ct_trace_time = Map.empty, ct_start_day = 0, ct_contact_reduction = None\<rparr>"
  let ?sim0 = "\<lparr>sim_t = 10, sim_pars = Map.empty, sim_people = [\<lparr>symptomatic = False, infectious = True, diagnosed = True, known_contact = False, date_diagnosed = Some 9, date_known_contact = None, dyn_cont_ppl = []\<rparr>,
       \<lparr>symptomatic = False, infectious = False, diagnosed = False, known_contact = False, date_diagnosed = None, date_known_contact = Some 15, dyn_cont_ppl = []\<rparr>,
       \<lparr>symptomatic = False, infectious = False, diagnosed = False, known_contact = False, date_diagnosed = None, date_known_contact = Some 10, dyn_cont_ppl = []\<rparr>,
       \<lparr>symptomatic = False, infectious = False, diagnosed = False, known_contact = False, date_diagnosed = None, date_known_contact = None, dyn_cont_ppl = []\<rparr>,
       \<lparr>symptomatic = False, infectious = False, diagnosed = False, known_contact = False, date_diagnosed = None, date_known_contact = None, dyn_cont_ppl = []\<rparr>,
       \<lparr>symptomatic = False, infectious = False, diagnosed = False, known_contact = False, date_diagnosed = None, date_known_contact = Some 30, dyn_cont_ppl = []\<rparr>], sim_results = \<lparr>new_tests = [], new_diagnoses = []\<rparr>, sim_rng = ()\<rparr>"
  let ?sim1 = "\<lparr>sim_t = 10, sim_pars = Map.empty, sim_people = [\<lparr>symptomatic = False, infectious = True, diagnosed = True, known_contact = False, date_diagnosed = Some 9, date_known_contact = None, dyn_cont_ppl = [(2, 10), (4, 3), (5, 1)]\<rparr>,
       \<lparr>symptomatic = False, infectious = False, diagnosed = False, known_contact = False, date_diagnosed = None, date_known_contact = Some 12, dyn_cont_ppl = []\<rparr>,
       \<lparr>symptomatic = False, infectious = False, diagnosed = False, known_contact = False, date_diagnosed = None, date_known_contact = Some 10, dyn_cont_ppl = []\<rparr>,
       \<lparr>symptomatic = False, infectious = False, diagnosed = False, known_contact = False, date_diagnosed = None, date_known_contact = Some 11, dyn_cont_ppl = []\<rparr>,
       \<lparr>symptomatic = False, infectious = False, diagnosed = False, known_contact = False, date_diagnosed = None, date_known_contact = Some 13, dyn_cont_ppl = []\<rparr>,
       \<lparr>symptomatic = False, infectious = False, diagnosed = False, known_contact = False, date_diagnosed = None, date_known_contact = Some 11, dyn_cont_ppl = []\<rparr>], sim_results = \<lparr>new_tests = [], new_diagnoses = []\<rparr>, sim_rng = ()\<rparr>"
  have run: "contact_tracing_apply ?tdc ?tsc ?ct ?sim0 = Inr ?sim1"
    by (simp add: contact_tracing_apply_def trace_person_def dict_update_def notify_def ebind_def
        Let_def)
  have dicts: "\<forall>probs times p g.
            distinct (map fst (fst (?tdc probs times p g)))
            \<and> distinct (map fst (fst (?tsc probs times p g)))" by simp
  note main = contact_tracing_earliest_notification
  from main [of ?tdc ?tsc ?ct ?sim0 ?sim1] run dicts
  have "\<forall>j. date_known_contact (sim_people ?sim1 ! j)
               = earliest (sim_t ?sim0) (date_known_contact (sim_people ?sim0 ! j))
                   (if int (sim_t ?sim0) < ct_start_day ?ct then []
                    else List.map_filter (\<lambda>m. m j)
                           (trace_notices ?tdc ?tsc ?ct (sim_t ?sim0)
                              [0..<length (sim_people ?sim0)] (sim_people ?sim0) (sim_rng ?sim0)))"
    by blast
  then have "date_known_contact (sim_people ?sim1 ! 5)
               = earliest (sim_t ?sim0) (date_known_contact (sim_people ?sim0 ! 5))
                   (if int (sim_t ?sim0) < ct_start_day ?ct then []
                    else List.map_filter (\<lambda>m. m 5)
                           (trace_notices ?tdc ?tsc ?ct (sim_t ?sim0)
                              [0..<length (sim_people ?sim0)] (sim_people ?sim0) (sim_rng ?sim0)))"
    by (rule spec)
  then have e: "earliest 10 (Some 30)
        (List.map_filter (\<lambda>m. m 5)
           (trace_notices ?tdc ?tsc ?ct 10 [0, 1, 2, 3, 4, 5] [\<lparr>symptomatic = False, infectious = True, diagnosed = True, known_contact = False, date_diagnosed = Some 9, date_known_contact = None, dyn_cont_ppl = []\<rparr>,
       \<lparr>symptomatic = False, infectious = False, diagnosed = False, known_contact = False, date_diagnosed = None, date_known_contact = Some 15, dyn_cont_ppl = []\<rparr>,
       \<lparr>symptomatic = False, infectious = False, diagnosed = False, known_contact = False, date_diagnosed = None, date_known_contact = Some 10, dyn_cont_ppl = []\<rparr>,
       \<lparr>symptomatic = False, infectious = False, diagnosed = False, known_contact = False, date_diagnosed = None, date_known_contact = None, dyn_cont_ppl = []\<rparr>,
       \<lparr>symptomatic = False, infectious = False, diagnosed = False, known_contact = False, date_diagnosed = None, date_known_contact = None, dyn_cont_ppl = []\<rparr>,
       \<lparr>symptomatic = False, infectious = False, diagnosed = False, known_contact = False, date_diagnosed = None, date_known_contact = Some 30, dyn_cont_ppl = []\<rparr>] ())) = Some 11"
    by (simp add: person_notice_def trace_person_def dict_update_def notify_def ebind_def
        Let_def List.map_filter_simps earliest_def)
  from main [of ?tdc ?tsc ?ct ?sim0 ?sim1 10 "Some 15" 2 "[]" "\<lparr>symptomatic = False, infectious = False, diagnosed = False, known_contact = False, date_diagnosed = None, date_known_contact = Some 15, dyn_cont_ppl = []\<rparr>"]
  have a: "date_known_contact (notify 10 2 \<lparr>symptomatic = False, infectious = False, diagnosed = False, known_contact = False, date_diagnosed = None, date_known_contact = Some 15, dyn_cont_ppl = []\<rparr>) = Some 12" by simp
  from main [of ?tdc ?tsc ?ct ?sim0 ?sim1 10 "Some 10" 10 "[]" "\<lparr>symptomatic = False, infectious = False, diagnosed = False, known_contact = False, date_diagnosed = None, date_known_contact = Some 10, dyn_cont_ppl = []\<rparr>"]
  have b: "date_known_contact (notify 10 10 \<lparr>symptomatic = False, infectious = False, diagnosed = False, known_contact = False, date_diagnosed = None, date_known_contact = Some 10, dyn_cont_ppl = []\<rparr>) = Some 10" by simp
  from run e a b show ?thesis by blast
qed

section \<open>Properties of dynamic pars\<close>

lemma dynamic_pars_init_accepts:
  "\<forall>(k, d, v) \<in> set entries. length (promotetoarray d) = vals_len (promote_vals v) \<Longrightarrow>
     dynamic_pars_init (map (\<lambda>(k, d, v). (k, \<lparr>arg_days = Some d, arg_vals = Some v\<rparr>)) entries)
       = Inr (map (\<lambda>(k, d, v). (k, \<lparr>dp_days = promotetoarray d, dp_vals = promote_vals v\<rparr>))
                entries)"
proof (induction entries)
  case Nil
  then show ?case by simp
next
  case (Cons entry entries)
  obtain k d v where e: "entry = (k, d, v)" by (cases entry)
  from Cons.prems e have l: "length (promotetoarray d) = vals_len (promote_vals v)" by simp
  from Cons.prems have
    "\<forall>(k, d, v) \<in> set entries. length (promotetoarray d) = vals_len (promote_vals v)"
    by simp
  from Cons.IH [OF this] e l show ?case
    by (simp add: init_entry_def ebind_def)
qed

lemma findinds_two:
  assumes "i < length ds" and "j < length ds" and "i \<noteq> j" and "ds ! i = v" and "ds ! j = v"
  shows "length (findinds ds v) > 1"
proof -
  have d: "distinct (findinds ds v)" by (simp add: findinds_def)
  from assms have m: "i \<in> set (findinds ds v)" "j \<in> set (findinds ds v)"
    by (auto simp: findinds_def)
  show ?thesis
  proof (cases "findinds ds v")
    case Nil
    with m show ?thesis by simp
  next
    case (Cons x xs)
    show ?thesis
    proof (cases xs)
      case Nil
      with Cons m assms(3) show ?thesis by auto
    next
      case (Cons y ys)
      with \<open>findinds ds v = x # xs\<close> show ?thesis by simp
    qed
  qed
qed

lemma dynamic_pars_loop_append:
  "dynamic_pars_loop t (pre @ rest) sim
     = ebind (dynamic_pars_loop t pre sim) (dynamic_pars_loop t rest)"
proof (induction pre arbitrary: sim)
  case Nil
  then show ?case by (simp add: ebind_def)
next
  case (Cons entry pre)
  obtain k e where entry: "entry = (k, e)" by (cases entry)
  show ?case
  proof (cases "apply_entry t k e sim")
    case (Inl err)
    with entry show ?thesis by (simp add: ebind_def)
  next
    case (Inr sim1)
    with entry Cons.IH [of sim1] show ?thesis by (simp add: ebind_def)
  qed
qed

lemma apply_entry_duplicate:
  "1 < length (findinds (dp_days parval) (int t)) \<Longrightarrow>
     apply_entry t parkey parval sim = Inl ValueError"
  by (auto simp: apply_entry_def Let_def)

text \<open>
  C1 as stated fails: the constructor accepts a schedule with two entries for day 10 of
  the same parameter.
\<close>

theorem dynamic_pars_init_accepts_duplicate_day:
  "dynamic_pars_init
     [(''beta'', \<lparr>arg_days = Some (Array [10, 10]),
                  arg_vals = Some (Array [Num (5/1000), Num (15/1000)])\<rparr>)]
   = Inr [(''beta'', \<lparr>dp_days = [10, 10],
                      dp_vals = ValArray [Num (5/1000), Num (15/1000)]\<rparr>)]"
  by (simp add: init_entry_def ebind_def)

text \<open>
  C1, amended. The constructor checks only that both subkeys are present and that the
  length of the days equals that of the values (a subkey that is not iterable counting as
  one element, a dictionary given as the value counting its keys): a schedule that
  passes these checks is accepted and stored, whichever days it holds. Two entries of one
  parameter sharing a day are detected by \<open>apply\<close> on that day, which then always
  raises; the error is the \<open>ValueError\<close> of the duplicate check whenever the parameters
  before that one are applied without an error of their own.
\<close>

theorem dynamic_pars_duplicate_day_raises_in_apply:
  "((\<forall>(k, d, v) \<in> set entries. length (promotetoarray d) = vals_len (promote_vals v)) \<longrightarrow>
      dynamic_pars_init (map (\<lambda>(k, d, v). (k, \<lparr>arg_days = Some d, arg_vals = Some v\<rparr>)) entries)
        = Inr (map (\<lambda>(k, d, v). (k, \<lparr>dp_days = promotetoarray d, dp_vals = promote_vals v\<rparr>))
                 entries))
   \<and> (i < length (dp_days parval) \<and> j < length (dp_days parval) \<and> i \<noteq> j
       \<and> dp_days parval ! i = int (sim_t sim) \<and> dp_days parval ! j = int (sim_t sim) \<longrightarrow>
      (\<exists>e. dynamic_pars_apply (pre @ (parkey, parval) # post) sim = Inl e)
      \<and> (\<forall>sim1. dynamic_pars_loop (sim_t sim) pre sim = Inr sim1 \<longrightarrow>
            dynamic_pars_apply (pre @ (parkey, parval) # post) sim = Inl ValueError))"
proof (intro conjI impI)
  assume "\<forall>(k, d, v) \<in> set entries. length (promotetoarray d) = vals_len (promote_vals v)"
  then show "dynamic_pars_init (map (\<lambda>(k, d, v). (k, \<lparr>arg_days = Some d, arg_vals = Some v\<rparr>)) entries)
        = Inr (map (\<lambda>(k, d, v). (k, \<lparr>dp_days = promotetoarray d, dp_vals = promote_vals v\<rparr>))
                 entries)"
    by (rule dynamic_pars_init_accepts)
next
  assume a: "i < length (dp_days parval) \<and> j < length (dp_days parval) \<and> i \<noteq> j
       \<and> dp_days parval ! i = int (sim_t sim) \<and> dp_days parval ! j = int (sim_t sim)"
  then have dup: "1 < length (findinds (dp_days parval) (int (sim_t sim)))"
    using findinds_two [of i "dp_days parval" j "int (sim_t sim)"] by blast
  have here: "dynamic_pars_loop (sim_t sim) ((parkey, parval) # post) s = Inl ValueError" for s
    by (simp add: ebind_def apply_entry_duplicate [OF dup])
  have split: "dynamic_pars_apply (pre @ (parkey, parval) # post) sim
          = ebind (dynamic_pars_loop (sim_t sim) pre sim)
              (dynamic_pars_loop (sim_t sim) ((parkey, parval) # post))"
    by (simp only: dynamic_pars_apply_def dynamic_pars_loop_append)
  show "\<exists>e. dynamic_pars_apply (pre @ (parkey, parval) # post) sim = Inl e"
  proof (cases "dynamic_pars_loop (sim_t sim) pre sim")
    case (Inl err)
    with split show ?thesis by (simp add: ebind_def)
  next
    case (Inr sim1)
    with split here [of sim1] show ?thesis by (simp add: ebind_def)
  qed
  show "\<forall>sim1. dynamic_pars_loop (sim_t sim) pre sim = Inr sim1 \<longrightarrow>
            dynamic_pars_apply (pre @ (parkey, parval) # post) sim = Inl ValueError"
  proof (intro allI impI)
    fix sim1 assume "dynamic_pars_loop (sim_t sim) pre sim = Inr sim1"
    with split here [of sim1] show "dynamic_pars_apply (pre @ (parkey, parval) # post) sim = Inl ValueError"
      by (simp add: ebind_def)
  qed
qed

theorem dynamic_pars_duplicate_day_raises_in_apply_witness:
  "dynamic_pars_init
     [(''quar_trans_factor'', \<lparr>arg_days = Some (Scalar 20), arg_vals = Some (Scalar (Num (1/10)))\<rparr>),
      (''beta'', \<lparr>arg_days = Some (Array [10, 10]),
                  arg_vals = Some (Array [Num (5/1000), Num (15/1000)])\<rparr>)]
     = Inr [(''quar_trans_factor'', \<lparr>dp_days = [20], dp_vals = ValArray [Num (1/10)]\<rparr>),
            (''beta'', \<lparr>dp_days = [10, 10],
                        dp_vals = ValArray [Num (5/1000), Num (15/1000)]\<rparr>)]
   \<and> dynamic_pars_apply
       [(''quar_trans_factor'', \<lparr>dp_days = [20], dp_vals = ValArray [Num (1/10)]\<rparr>),
        (''beta'', \<lparr>dp_days = [10, 10], dp_vals = ValArray [Num (5/1000), Num (15/1000)]\<rparr>)]
       \<lparr>sim_t = 10, sim_pars = [''beta'' \<mapsto> Num (15/1000)], sim_people = [],
        sim_results = \<lparr>new_tests = [], new_diagnoses = []\<rparr>, sim_rng = ()\<rparr>
     = Inl ValueError"
proof -
  let ?sim = "\<lparr>sim_t = 10, sim_pars = [''beta'' \<mapsto> Num (15/1000)], sim_people = [],
               sim_results = \<lparr>new_tests = [], new_diagnoses = []\<rparr>, sim_rng = ()\<rparr>"
  let ?q = "\<lparr>dp_days = [20], dp_vals = ValArray [Num (1/10)]\<rparr>"
  let ?parval = "\<lparr>dp_days = [10, 10], dp_vals = ValArray [Num (5/1000), Num (15/1000)]\<rparr>"
  note main = dynamic_pars_duplicate_day_raises_in_apply
    [of "[(''quar_trans_factor'', Scalar 20, Scalar (Num (1/10))),
          (''beta'', Array [10, 10], Array [Num (5/1000), Num (15/1000)])]"
        0 ?parval 1 ?sim "[(''quar_trans_factor'', ?q)]" "''beta''" "[]"]
  have pre: "dynamic_pars_loop 10 [(''quar_trans_factor'', ?q)] ?sim = Inr ?sim"
    by (simp add: apply_entry_def findinds_def ebind_def)
  from main have a: "dynamic_pars_init
     [(''quar_trans_factor'', \<lparr>arg_days = Some (Scalar 20), arg_vals = Some (Scalar (Num (1/10)))\<rparr>),
      (''beta'', \<lparr>arg_days = Some (Array [10, 10]),
                  arg_vals = Some (Array [Num (5/1000), Num (15/1000)])\<rparr>)]
     = Inr [(''quar_trans_factor'', ?q), (''beta'', ?parval)]" by simp
  from main pre have b: "dynamic_pars_apply [(''quar_trans_factor'', ?q), (''beta'', ?parval)] ?sim
      = Inl ValueError" by simp
  from a b show ?thesis by blast
qed

lemma init_entry_dict_vals:
  "init_entry \<lparr>arg_days = Some (Scalar 30),
               arg_vals = Some (Scalar (Dict [''h'' \<mapsto> Num (1/2), ''s'' \<mapsto> Num (3/10)]))\<rparr>
     = Inl ValueError"
  "init_entry \<lparr>arg_days = Some (Array [1, 2]),
               arg_vals = Some (Scalar (Dict [''h'' \<mapsto> Num (1/2), ''s'' \<mapsto> Num (3/10)]))\<rparr>
     = Inr \<lparr>dp_days = [1, 2], dp_vals = ValDict [''h'' \<mapsto> Num (1/2), ''s'' \<mapsto> Num (3/10)]\<rparr>"
  by (simp_all add: init_entry_def)

section \<open>Properties of make microstructured contacts\<close>

lemma map_of_dd_add:
  "map_of (dd_add i j d) = (map_of d)(i \<mapsto> insert j (dd_get d i))"
  by (simp add: dd_add_def update_conv')

lemma distinct_dd_add: "distinct (map fst d) \<Longrightarrow> distinct (map fst (dd_add i j d))"
  by (simp add: dd_add_def distinct_update)

lemma clique_inv_pair:
  assumes inv: "clique_inv n d" and ij: "i \<noteq> j" "i < n" "j < n"
  shows "clique_inv n (dd_add j i (dd_add i j d))"
proof -
  let ?d1 = "dd_add i j d"
  let ?d2 = "dd_add j i ?d1"
  have g: "dd_get ?d1 j = dd_get d j"
    using ij(1) by (simp add: dd_get_def map_of_dd_add)
  have m2: "map_of ?d2 = (map_of d)(i \<mapsto> insert j (dd_get d i), j \<mapsto> insert i (dd_get d j))"
    by (simp add: map_of_dd_add g)
  from inv have dist: "distinct (map fst d)"
    and old: "\<And>k s. map_of d k = Some s \<Longrightarrow>
            finite s \<and> k < n \<and> k \<notin> s
            \<and> (\<forall>j \<in> s. j < n \<and> (\<exists>s'. map_of d j = Some s' \<and> k \<in> s'))"
    unfolding clique_inv_def by blast+
  have fin: "finite (dd_get d k)" for k
    using old [of k] by (auto simp: dd_get_def split: option.splits)
  have notself: "k \<notin> dd_get d k" for k
    using old [of k] by (auto simp: dd_get_def split: option.splits)
  have bound: "x < n" if "x \<in> dd_get d k" for x k
    using old [of k] that by (auto simp: dd_get_def split: option.splits)
  have symd: "k \<in> dd_get d x" if "x \<in> dd_get d k" for x k
    using old [of k] that by (auto simp: dd_get_def split: option.splits)
  have get2: "dd_get ?d2 k = (if k = j then insert i (dd_get d j)
                              else if k = i then insert j (dd_get d i) else dd_get d k)" for k
    by (simp add: dd_get_def m2)
  have some2: "map_of ?d2 k = Some s \<Longrightarrow> s = dd_get ?d2 k" for k s
    by (simp add: dd_get_def)
  have dom2: "(\<exists>s. map_of ?d2 k = Some s) \<longleftrightarrow> k = i \<or> k = j \<or> (\<exists>s. map_of d k = Some s)" for k
    by (auto simp: m2)
  have keyb: "k < n" if "map_of ?d2 k = Some s" for k s
    using that ij old [of k] by (auto simp: m2 split: if_splits)
  have nonempty_dom: "\<exists>s. map_of ?d2 x = Some s" if "x \<in> dd_get ?d2 k" for x k
  proof -
    from that have "x = i \<or> x = j \<or> x \<in> dd_get d k"
      by (auto simp: get2 split: if_splits)
    moreover have "\<exists>s. map_of d x = Some s" if "x \<in> dd_get d k"
      using symd [OF that] by (auto simp: dd_get_def split: option.splits)
    ultimately show ?thesis by (auto simp: dom2)
  qed
  have sym2: "k \<in> dd_get ?d2 x" if "x \<in> dd_get ?d2 k" for x k
    using that symd by (auto simp: get2 split: if_splits)
  have "distinct (map fst ?d2)" using dist by (simp add: distinct_dd_add)
  moreover have "finite s \<and> k < n \<and> k \<notin> s
            \<and> (\<forall>x \<in> s. x < n \<and> (\<exists>s'. map_of ?d2 x = Some s' \<and> k \<in> s'))"
    if h: "map_of ?d2 k = Some s" for k s
  proof -
    from some2 [OF h] have s: "s = dd_get ?d2 k" .
    have "finite s" using s fin by (simp add: get2)
    moreover have "k < n" using keyb [OF h] .
    moreover have "k \<notin> s" using s notself ij(1) by (auto simp: get2 split: if_splits)
    moreover have "x < n \<and> (\<exists>s'. map_of ?d2 x = Some s' \<and> k \<in> s')" if xs: "x \<in> s" for x
    proof -
      from xs s have x: "x \<in> dd_get ?d2 k" by simp
      from nonempty_dom [OF x] obtain s' where s': "map_of ?d2 x = Some s'" by blast
      from sym2 [OF x] some2 [OF s'] have "k \<in> s'" by simp
      with s' keyb [OF s'] show ?thesis by blast
    qed
    ultimately show ?thesis by blast
  qed
  ultimately show ?thesis unfolding clique_inv_def by blast
qed

lemma clique_inv_inner:
  "clique_inv n d \<Longrightarrow> i < n \<Longrightarrow> \<forall>j \<in> set js. j < n \<Longrightarrow>
     clique_inv n (fold (\<lambda>j d. if j \<le> i then d else dd_add j i (dd_add i j d)) js d)"
proof (induction js arbitrary: d)
  case Nil
  then show ?case by simp
next
  case (Cons j js)
  have "clique_inv n (if j \<le> i then d else dd_add j i (dd_add i j d))"
  proof (cases "j \<le> i")
    case True
    with Cons.prems show ?thesis by simp
  next
    case False
    then have "i \<noteq> j" by simp
    from clique_inv_pair [OF Cons.prems(1) this Cons.prems(2)] Cons.prems(3) False
    show ?thesis by simp
  qed
  from Cons.IH [OF this Cons.prems(2)] Cons.prems(3) show ?case by simp
qed

lemma clique_inv_outer:
  "clique_inv n d \<Longrightarrow> \<forall>i \<in> set is. i < n \<Longrightarrow> \<forall>j \<in> set js. j < n \<Longrightarrow>
     clique_inv n
       (fold (\<lambda>i d. fold (\<lambda>j d. if j \<le> i then d else dd_add j i (dd_add i j d)) js d) is d)"
proof (induction "is" arbitrary: d)
  case Nil
  then show ?case by simp
next
  case (Cons i rest)
  from Cons.prems have "i < n" by simp
  from clique_inv_inner [OF Cons.prems(1) this Cons.prems(3)]
  have "clique_inv n (fold (\<lambda>j d. if j \<le> i then d else dd_add j i (dd_add i j d)) js d)" .
  from Cons.IH [OF this _ Cons.prems(3)] Cons.prems(2) show ?case by simp
qed

lemma clique_inv_add_cluster:
  "clique_inv n d \<Longrightarrow> \<forall>i \<in> set cluster_indices. i < n \<Longrightarrow>
     clique_inv n (add_cluster cluster_indices d)"
  unfolding add_cluster_def by (rule clique_inv_outer)

lemma make_clusters_inv:
  "make_clusters pop_size n_remaining draws d = Some (d', draws') \<Longrightarrow>
     n_remaining \<le> pop_size \<Longrightarrow> clique_inv pop_size d \<Longrightarrow> clique_inv pop_size d'"
proof (induction draws arbitrary: n_remaining d)
  case Nil
  then show ?case by (simp split: if_splits)
next
  case (Cons draw draws)
  show ?case
  proof (cases "n_remaining > 0")
    case False
    with Cons.prems show ?thesis by simp
  next
    case True
    let ?tc = "if draw > n_remaining then n_remaining else draw"
    let ?ci = "map (\<lambda>k. (pop_size - n_remaining) + k) [0..<?tc]"
    from Cons.prems(1) True have
      r: "make_clusters pop_size (n_remaining - ?tc) draws (add_cluster ?ci d) = Some (d', draws')"
      by (simp add: Let_def)
    have "\<forall>i \<in> set ?ci. i < pop_size" using Cons.prems(2) by auto
    from clique_inv_add_cluster [OF Cons.prems(3) this]
    have inv: "clique_inv pop_size (add_cluster ?ci d)" .
    have "n_remaining - ?tc \<le> pop_size" using Cons.prems(2) by simp
    from Cons.IH [OF r this inv] show ?thesis .
  qed
qed

lemma clique_inv_Nil: "clique_inv n []"
  by (simp add: clique_inv_def)

lemma fill_layer_nth:
  "distinct (map fst d) \<Longrightarrow> \<forall>k \<in> fst ` set d. k < length cl \<Longrightarrow>
     length (fill_layer l d cl) = length cl
     \<and> (\<forall>i < length cl. \<forall>l'.
           (fill_layer l d cl ! i) l'
             = (if l' = l
                then (case map_of d i of
                        Some s \<Rightarrow> Some (sorted_list_of_set s) | None \<Rightarrow> (cl ! i) l)
                else (cl ! i) l'))"
proof (induction d arbitrary: cl)
  case Nil
  then show ?case by (simp add: fill_layer_def)
next
  case (Cons entry rest)
  obtain k s where entry: "entry = (k, s)" by (cases entry)
  let ?cl1 = "cl[k := (cl ! k)(l \<mapsto> sorted_list_of_set s)]"
  from Cons.prems entry have k: "k < length cl" and nin: "k \<notin> fst ` set rest"
    and dr: "distinct (map fst rest)" and kr: "\<forall>k \<in> fst ` set rest. k < length ?cl1"
    by auto
  from nin have none: "map_of rest k = None" by (simp add: map_of_eq_None_iff)
  have unfold: "fill_layer l (entry # rest) cl = fill_layer l rest ?cl1"
    by (simp add: fill_layer_def entry)
  from Cons.IH [OF dr kr] have len: "length (fill_layer l rest ?cl1) = length cl"
    and nth: "\<And>i l'. i < length cl \<Longrightarrow>
           (fill_layer l rest ?cl1 ! i) l'
             = (if l' = l
                then (case map_of rest i of
                        Some s \<Rightarrow> Some (sorted_list_of_set s) | None \<Rightarrow> (?cl1 ! i) l)
                else (?cl1 ! i) l')"
    by auto
  have "(fill_layer l rest ?cl1 ! i) l'
             = (if l' = l
                then (case map_of (entry # rest) i of
                        Some s \<Rightarrow> Some (sorted_list_of_set s) | None \<Rightarrow> (cl ! i) l)
                else (cl ! i) l')" if i: "i < length cl" for i l'
  proof (cases "i = k")
    case True
    with nth [OF i, of l'] none k entry show ?thesis by simp
  next
    case False
    with nth [OF i, of l'] entry show ?thesis by (simp split: option.splits)
  qed
  with len unfold show ?case by simp
qed

lemma clique_inv_keys:
  assumes "clique_inv n d" and "k \<in> fst ` set d"
  shows "k < n"
proof -
  from assms(2) have "map_of d k \<noteq> None" by (simp add: map_of_eq_None_iff)
  then obtain s where "map_of d k = Some s" by blast
  with assms(1) show ?thesis unfolding clique_inv_def by blast
qed

lemma fill_layer_ok:
  assumes inv: "clique_inv n d" and len: "length cl = n"
    and empty: "\<forall>i < n. (cl ! i) l = Some []"
  shows "layer_ok n (fill_layer l d cl) l"
proof -
  from inv have dist: "distinct (map fst d)" unfolding clique_inv_def by blast
  have keys: "\<forall>k \<in> fst ` set d. k < length cl"
    using clique_inv_keys [OF inv] len by blast
  from fill_layer_nth [OF dist keys, of l] len have
    nth: "\<And>i. i < n \<Longrightarrow> (fill_layer l d cl ! i) l
             = (case map_of d i of
                  Some s \<Rightarrow> Some (sorted_list_of_set s) | None \<Rightarrow> (cl ! i) l)"
    by simp
  have "\<exists>ns. (fill_layer l d cl ! i) l = Some ns \<and> distinct ns \<and> i \<notin> set ns
        \<and> (\<forall>j \<in> set ns. j < n \<and> (\<exists>ms. (fill_layer l d cl ! j) l = Some ms \<and> i \<in> set ms))"
    if i: "i < n" for i
  proof (cases "map_of d i")
    case None
    with nth [OF i] empty i have "(fill_layer l d cl ! i) l = Some []" by simp
    then show ?thesis by simp
  next
    case (Some s)
    with inv have fin: "finite s" and ni: "i \<notin> s"
      and con: "\<forall>j \<in> s. j < n \<and> (\<exists>s'. map_of d j = Some s' \<and> i \<in> s')"
      unfolding clique_inv_def by blast+
    from nth [OF i] Some have e: "(fill_layer l d cl ! i) l = Some (sorted_list_of_set s)"
      by simp
    have "j < n \<and> (\<exists>ms. (fill_layer l d cl ! j) l = Some ms \<and> i \<in> set ms)"
      if "j \<in> set (sorted_list_of_set s)" for j
    proof -
      from that fin have "j \<in> s" by simp
      with con obtain s' where j: "j < n" and s': "map_of d j = Some s'" and m: "i \<in> s'"
        by blast
      from inv s' have "finite s'" unfolding clique_inv_def by blast
      with nth [OF j] s' m show ?thesis using j by simp
    qed
    with e fin ni show ?thesis by simp
  qed
  then show ?thesis unfolding layer_ok_def by blast
qed

lemma layer_ok_cong:
  "layer_ok n cl l \<Longrightarrow> \<forall>i < n. (cl' ! i) l = (cl ! i) l \<Longrightarrow> layer_ok n cl' l"
  unfolding layer_ok_def by (metis)


lemma layers_loop_ok:
  "layers_loop n layers draws cl = Some cl' \<Longrightarrow> distinct (map fst layers) \<Longrightarrow> length cl = n \<Longrightarrow>
     \<forall>l \<in> fst ` set layers. \<forall>i < n. (cl ! i) l = Some [] \<Longrightarrow>
     length cl' = n
     \<and> (\<forall>l \<in> fst ` set layers. layer_ok n cl' l)
     \<and> (\<forall>l. l \<notin> fst ` set layers \<longrightarrow> (\<forall>i < n. (cl' ! i) l = (cl ! i) l))"
proof (induction layers arbitrary: draws cl)
  case Nil
  then show ?case by simp
next
  case (Cons layer rest)
  obtain l cs where layer: "layer = (l, cs)" by (cases layer)
  from Cons.prems(1) layer obtain d draws1 where
    mc: "make_clusters n n draws [] = Some (d, draws1)"
    and r: "layers_loop n rest draws1 (fill_layer l d cl) = Some cl'"
    by (auto split: option.splits)
  let ?cl1 = "fill_layer l d cl"
  from make_clusters_inv [OF mc _ clique_inv_Nil] have inv: "clique_inv n d" by simp
  then have dist: "distinct (map fst d)" unfolding clique_inv_def by blast
  have keys: "\<forall>k \<in> fst ` set d. k < length cl"
    using clique_inv_keys [OF inv] Cons.prems(3) by blast
  from fill_layer_nth [OF dist keys, of l] Cons.prems(3) have
    len1: "length ?cl1 = n"
    and other: "\<And>i l'. i < n \<Longrightarrow> l' \<noteq> l \<Longrightarrow> (?cl1 ! i) l' = (cl ! i) l'"
    by auto
  from Cons.prems(4) layer have e: "\<forall>i < n. (cl ! i) l = Some []" by simp
  from fill_layer_ok [OF inv Cons.prems(3) e] have ok1: "layer_ok n ?cl1 l" .
  from Cons.prems(2) layer have lr: "l \<notin> fst ` set rest" and dr: "distinct (map fst rest)"
    by auto
  have er: "\<forall>l' \<in> fst ` set rest. \<forall>i < n. (?cl1 ! i) l' = Some []"
  proof (intro ballI allI impI)
    fix l' i assume l': "l' \<in> fst ` set rest" and i: "i < n"
    with lr have "l' \<noteq> l" by auto
    from other [OF i this] Cons.prems(4) l' i show "(?cl1 ! i) l' = Some []" by simp
  qed
  from Cons.IH [OF r dr len1 er] have
    len': "length cl' = n"
    and okr: "\<forall>l' \<in> fst ` set rest. layer_ok n cl' l'"
    and same: "\<forall>l'. l' \<notin> fst ` set rest \<longrightarrow> (\<forall>i < n. (cl' ! i) l' = (?cl1 ! i) l')"
    by auto
  from same lr have "\<forall>i < n. (cl' ! i) l = (?cl1 ! i) l" by blast
  from layer_ok_cong [OF ok1 this] have okl: "layer_ok n cl' l" .
  have "\<forall>l'. l' \<notin> fst ` set (layer # rest) \<longrightarrow> (\<forall>i < n. (cl' ! i) l' = (cl ! i) l')"
    using same other layer by auto
  with len' okr okl layer show ?case by auto
qed

lemma map_of_empty_lists:
  "l \<in> set keys \<Longrightarrow> map_of (map (\<lambda>c. (c, [])) keys) l = Some []"
  by (induction keys) auto

lemma make_microstructured_contacts_ok:
  assumes "make_microstructured_contacts pop_size contacts draws = Some (contacts_list, contact_keys)"
    and "distinct (map fst contacts)"
  shows "length contacts_list = pop_size
       \<and> contact_keys = map fst (filter (\<lambda>(k, v). k \<noteq> ''c'') contacts)
       \<and> (\<forall>layer \<in> set contact_keys. layer_ok pop_size contacts_list layer)"
proof -
  let ?cs = "filter (\<lambda>(k, v). k \<noteq> ''c'') contacts"
  let ?keys = "map fst ?cs"
  let ?cl0 = "replicate pop_size (map_of (map (\<lambda>c. (c, [])) ?keys))"
  from assms(1) have ll: "layers_loop pop_size ?cs draws ?cl0 = Some contacts_list"
    and k: "contact_keys = ?keys"
    by (auto simp: make_microstructured_contacts_def Let_def split: option.splits)
  have d: "distinct (map fst ?cs)" using assms(2) by (rule distinct_map_filter)
  have e: "\<forall>l \<in> fst ` set ?cs. \<forall>i < pop_size. (?cl0 ! i) l = Some []"
  proof (intro ballI allI impI)
    fix l i assume "l \<in> fst ` set ?cs" and "i < pop_size"
    then have "l \<in> set ?keys" by simp
    from map_of_empty_lists [OF this] \<open>i < pop_size\<close> show "(?cl0 ! i) l = Some []" by simp
  qed
  from layers_loop_ok [OF ll d _ e] k show ?thesis by simp
qed

text \<open>
  C8. In every layer that the clustered model produces, the contact relation is
  symmetric: \<open>j\<close> is among the neighbours of \<open>i\<close> exactly when \<open>i\<close> is among those of \<open>j\<close>.
  Every agent has an entry for the layer and every neighbour is an agent.
\<close>

theorem clustered_contacts_symmetric:
  assumes "make_microstructured_contacts pop_size contacts draws = Some (contacts_list, contact_keys)"
    and "distinct (map fst contacts)"
    and "layer \<in> set contact_keys"
    and "i < pop_size" and "j < pop_size"
  shows "(j \<in> set (neighbors contacts_list i layer) \<longleftrightarrow> i \<in> set (neighbors contacts_list j layer))
       \<and> (contacts_list ! i) layer \<noteq> None
       \<and> (\<forall>k \<in> set (neighbors contacts_list i layer). k < pop_size)"
proof -
  from make_microstructured_contacts_ok [OF assms(1,2)] assms(3)
  have ok: "layer_ok pop_size contacts_list layer" by blast
  from ok assms(4) obtain ns where
    ni: "(contacts_list ! i) layer = Some ns"
    and ci: "\<forall>k \<in> set ns. k < pop_size \<and> (\<exists>ms. (contacts_list ! k) layer = Some ms \<and> i \<in> set ms)"
    unfolding layer_ok_def by blast
  from ok assms(5) obtain ms where
    nj: "(contacts_list ! j) layer = Some ms"
    and cj: "\<forall>k \<in> set ms. k < pop_size \<and> (\<exists>ns. (contacts_list ! k) layer = Some ns \<and> j \<in> set ns)"
    unfolding layer_ok_def by blast
  have "j \<in> set ns \<longleftrightarrow> i \<in> set ms"
  proof
    assume "j \<in> set ns"
    with ci nj show "i \<in> set ms" by auto
  next
    assume "i \<in> set ms"
    with cj ni show "j \<in> set ns" by auto
  qed
  with ni nj ci show ?thesis by (simp add: neighbors_def)
qed

text \<open>
  C10. In every layer that the clustered model produces, no agent's neighbour list holds
  the agent's own index, and none holds an index twice.
\<close>

theorem clustered_contacts_no_self_no_duplicates:
  assumes "make_microstructured_contacts pop_size contacts draws = Some (contacts_list, contact_keys)"
    and "distinct (map fst contacts)"
    and "layer \<in> set contact_keys"
    and "i < pop_size"
  shows "i \<notin> set (neighbors contacts_list i layer) \<and> distinct (neighbors contacts_list i layer)"
proof -
  from make_microstructured_contacts_ok [OF assms(1,2)] assms(3)
  have "layer_ok pop_size contacts_list layer" by blast
  with assms(4) obtain ns where "(contacts_list ! i) layer = Some ns" "distinct ns" "i \<notin> set ns"
    unfolding layer_ok_def by blast
  then show ?thesis by (simp add: neighbors_def)
qed

theorem clustered_contacts_symmetric_witness:
  "\<exists>cl. make_microstructured_contacts 5 [(''h'', 4), (''c'', 20)] [3, 0, 4] = Some (cl, [''h''])
      \<and> neighbors cl 0 ''h'' = [1, 2]
      \<and> neighbors cl 1 ''h'' = [0, 2]
      \<and> neighbors cl 2 ''h'' = [0, 1]
      \<and> neighbors cl 3 ''h'' = [4]
      \<and> neighbors cl 4 ''h'' = [3]
      \<and> (1 \<in> set (neighbors cl 0 ''h'') \<longleftrightarrow> 0 \<in> set (neighbors cl 1 ''h''))"
proof -
  have "case make_microstructured_contacts 5 [(''h'', 4), (''c'', 20)] [3, 0, 4] of
          None \<Rightarrow> False
        | Some (cl, keys) \<Rightarrow>
            keys = [''h''] \<and> neighbors cl 0 ''h'' = [1, 2] \<and> neighbors cl 1 ''h'' = [0, 2]
            \<and> neighbors cl 2 ''h'' = [0, 1] \<and> neighbors cl 3 ''h'' = [4]
            \<and> neighbors cl 4 ''h'' = [3]"
    by code_simp
  then obtain cl where
    r: "make_microstructured_contacts 5 [(''h'', 4), (''c'', 20)] [3, 0, 4] = Some (cl, [''h''])"
    and n: "neighbors cl 0 ''h'' = [1, 2]" "neighbors cl 1 ''h'' = [0, 2]"
      "neighbors cl 2 ''h'' = [0, 1]" "neighbors cl 3 ''h'' = [4]" "neighbors cl 4 ''h'' = [3]"
    by (auto split: option.splits)
  from clustered_contacts_symmetric [OF r, of "''h''" 0 1]
  have "1 \<in> set (neighbors cl 0 ''h'') \<longleftrightarrow> 0 \<in> set (neighbors cl 1 ''h'')" by simp
  with r n show ?thesis by blast
qed

theorem clustered_contacts_no_self_no_duplicates_witness:
  "\<exists>cl. make_microstructured_contacts 4 [(''a'', 20)] [2, 5] = Some (cl, [''a''])
      \<and> neighbors cl 0 ''a'' = [1]
      \<and> neighbors cl 2 ''a'' = [3]
      \<and> 2 \<notin> set (neighbors cl 2 ''a'')
      \<and> distinct (neighbors cl 2 ''a'')"
proof -
  have "case make_microstructured_contacts 4 [(''a'', 20)] [2, 5] of
          None \<Rightarrow> False
        | Some (cl, keys) \<Rightarrow>
            keys = [''a''] \<and> neighbors cl 0 ''a'' = [1] \<and> neighbors cl 2 ''a'' = [3]"
    by code_simp
  then obtain cl where
    r: "make_microstructured_contacts 4 [(''a'', 20)] [2, 5] = Some (cl, [''a''])"
    and n: "neighbors cl 0 ''a'' = [1]" "neighbors cl 2 ''a'' = [3]"
    by (auto split: option.splits)
  from clustered_contacts_no_self_no_duplicates [OF r, of "''a''" 2]
  have "2 \<notin> set (neighbors cl 2 ''a'') \<and> distinct (neighbors cl 2 ''a'')" by simp
  with r n show ?thesis by blast
qed

text \<open>
  The clustered model returns whenever the draws are positive and there are enough of
  them: each turn of the loop then assigns at least one agent.
\<close>

lemma make_clusters_returns:
  "\<forall>x \<in> set draws. 0 < x \<Longrightarrow> n_remaining \<le> length draws \<Longrightarrow>
     \<exists>d' k. k \<le> n_remaining \<and> make_clusters pop_size n_remaining draws d = Some (d', drop k draws)"
proof (induction draws arbitrary: n_remaining d)
  case Nil
  then show ?case by simp
next
  case (Cons draw draws)
  show ?case
  proof (cases "n_remaining > 0")
    case False
    then have "make_clusters pop_size n_remaining (draw # draws) d = Some (d, drop 0 (draw # draws))"
      by simp
    then show ?thesis by blast
  next
    case True
    let ?tc = "if draw > n_remaining then n_remaining else draw"
    let ?ci = "map (\<lambda>k. (pop_size - n_remaining) + k) [0..<?tc]"
    from Cons.prems(1) have pos: "0 < draw" and rest: "\<forall>x \<in> set draws. 0 < x" by auto
    from pos True have tc: "0 < ?tc" by simp
    with Cons.prems(2) have le: "n_remaining - ?tc \<le> length draws" by simp
    from Cons.IH [OF rest le, of "add_cluster ?ci d"] obtain d' k where
      k: "k \<le> n_remaining - ?tc"
      and r: "make_clusters pop_size (n_remaining - ?tc) draws (add_cluster ?ci d)
                = Some (d', drop k draws)" by blast
    from r True have "make_clusters pop_size n_remaining (draw # draws) d
                        = Some (d', drop (Suc k) (draw # draws))"
      by (simp add: Let_def)
    moreover from k tc True have "Suc k \<le> n_remaining" by simp
    ultimately show ?thesis by blast
  qed
qed

lemma layers_loop_returns:
  "\<forall>x \<in> set draws. 0 < x \<Longrightarrow> length layers * n \<le> length draws \<Longrightarrow>
     \<exists>cl'. layers_loop n layers draws cl = Some cl'"
proof (induction layers arbitrary: draws cl)
  case Nil
  then show ?case by simp
next
  case (Cons layer rest)
  obtain l cs where layer: "layer = (l, cs)" by (cases layer)
  from Cons.prems(2) have "n \<le> length draws" by simp
  from make_clusters_returns [OF Cons.prems(1) this, of n "[]"] obtain d k where
    k: "k \<le> n" and mc: "make_clusters n n draws [] = Some (d, drop k draws)" by blast
  have pos: "\<forall>x \<in> set (drop k draws). 0 < x"
    using Cons.prems(1) by (meson in_set_dropD)
  have "length rest * n \<le> length (drop k draws)"
    using Cons.prems(2) k by simp
  from Cons.IH [OF pos this, of "fill_layer l d cl"] mc layer show ?case by simp
qed

lemma make_microstructured_contacts_returns:
  assumes "\<forall>x \<in> set draws. 0 < x" and "length contacts * pop_size \<le> length draws"
  shows "\<exists>contacts_list.
           make_microstructured_contacts pop_size contacts draws
             = Some (contacts_list, map fst (filter (\<lambda>(k, v). k \<noteq> ''c'') contacts))"
proof -
  let ?cs = "filter (\<lambda>(k, v). k \<noteq> ''c'') contacts"
  have "length ?cs \<le> length contacts" by (rule length_filter_le)
  then have "length ?cs * pop_size \<le> length contacts * pop_size" by (rule mult_le_mono1)
  then have "length ?cs * pop_size \<le> length draws" using assms(2) by (rule le_trans)
  from layers_loop_returns [OF assms(1) this] show ?thesis
    by (auto simp: make_microstructured_contacts_def Let_def split: option.splits)
qed

end
